(* ===== verification/Go_Base.thy ===== *)
theory Go_Base
  imports Complex_Main "HOL-Library.Word" "HOL-Library.Multiset"
begin

text \<open>
  Prelude of the development: the collections of rewrite rules the component theories share,
  the Go integer conversions the program relies on (fixed width, two's complement, truncating),
  the error values of the program (\<^verbatim>\<open>errors.New\<close>, \<^verbatim>\<open>fmt.Errorf\<close> with \<^verbatim>\<open>%w\<close>, sentinels), the JSON
  documents that travel through the queue table and the results file, and generic facts on
  lists, association lists and minima.
\<close>

named_theorems go_int "conversions between Go integer types"
named_theorems err_simps "error values: unwrapping and texts"

section \<open>Go integers\<close>

text \<open>
  Signed Go integers are \<open>int\<close> values in range; a conversion or an arithmetic operation that may
  leave the range wraps with \<open>int64_of\<close> or \<open>int32_of\<close>. Unsigned 64-bit values are \<open>64 word\<close>.
\<close>

type_synonym uint64 = "64 word"
type_synonym uint8 = "8 word"

definition int64_of :: "int \<Rightarrow> int" where
  "int64_of x = (x + 2 ^ 63) mod 2 ^ 64 - 2 ^ 63"

definition int32_of :: "int \<Rightarrow> int" where
  "int32_of x = (x + 2 ^ 31) mod 2 ^ 32 - 2 ^ 31"

definition in_int64 :: "int \<Rightarrow> bool" where
  "in_int64 x \<longleftrightarrow> - (2 ^ 63) \<le> x \<and> x < 2 ^ 63"

definition in_int32 :: "int \<Rightarrow> bool" where
  "in_int32 x \<longleftrightarrow> - (2 ^ 31) \<le> x \<and> x < 2 ^ 31"

definition int64_of_uint64 :: "uint64 \<Rightarrow> int" where
  "int64_of_uint64 w = sint w"

definition uint64_of_int64 :: "int \<Rightarrow> uint64" where
  "uint64_of_int64 x = word_of_int x"

section \<open>Error values\<close>

text \<open>
  One constructor per way the program makes or receives an error value. \<open>Errorf p e\<close> is
  \<^verbatim>\<open>fmt.Errorf(p + "%w", e)\<close>; \<open>ErrorQ p a q\<close> is a message with one \<^verbatim>\<open>%q\<close> argument;
  \<open>PgError c\<close> is a \<^verbatim>\<open>*pgconn.PgError\<close> with SQLSTATE \<open>c\<close>; \<open>External t\<close> is any other error of
  a package outside the repository, with its text.
\<close>

datatype goerr =
    ErrorsNew string
  | ErrorQ string string string
  | Errorf string goerr
  | ErrorfOrig string goerr string
  | SimulatedError string string
  | QueueError string
  | JobCancel goerr
  | PgError string string
  | ErrNoRows
  | ErrDuplicateAddressedPush
  | ErrAgentStopTimeout
  | Canceled
  | DeadlineExceeded
  | External string

primrec unwrap :: "goerr \<Rightarrow> goerr option" where
  "unwrap (ErrorsNew m) = None"
| "unwrap (ErrorQ p a q) = None"
| "unwrap (Errorf p e) = Some e"
| "unwrap (ErrorfOrig p e q) = Some e"
| "unwrap (SimulatedError c m) = None"
| "unwrap (QueueError m) = None"
| "unwrap (JobCancel e) = Some e"
| "unwrap (PgError c m) = None"
| "unwrap ErrNoRows = None"
| "unwrap ErrDuplicateAddressedPush = None"
| "unwrap ErrAgentStopTimeout = None"
| "unwrap Canceled = None"
| "unwrap DeadlineExceeded = None"
| "unwrap (External m) = None"

text \<open>\<open>errors_is\<close> and \<open>err_chain\<close>: \<^verbatim>\<open>errors.Is\<close> and the chain \<^verbatim>\<open>errors.As\<close> walks.\<close>

primrec err_chain :: "goerr \<Rightarrow> goerr list" where
  "err_chain (ErrorsNew m) = [ErrorsNew m]"
| "err_chain (ErrorQ p a q) = [ErrorQ p a q]"
| "err_chain (Errorf p e) = Errorf p e # err_chain e"
| "err_chain (ErrorfOrig p e q) = ErrorfOrig p e q # err_chain e"
| "err_chain (SimulatedError c m) = [SimulatedError c m]"
| "err_chain (QueueError m) = [QueueError m]"
| "err_chain (JobCancel e) = JobCancel e # err_chain e"
| "err_chain (PgError c m) = [PgError c m]"
| "err_chain ErrNoRows = [ErrNoRows]"
| "err_chain ErrDuplicateAddressedPush = [ErrDuplicateAddressedPush]"
| "err_chain ErrAgentStopTimeout = [ErrAgentStopTimeout]"
| "err_chain Canceled = [Canceled]"
| "err_chain DeadlineExceeded = [DeadlineExceeded]"
| "err_chain (External m) = [External m]"

definition errors_is :: "goerr \<Rightarrow> goerr \<Rightarrow> bool" where
  "errors_is e target \<longleftrightarrow> target \<in> set (err_chain e)"

text \<open>The text of an error (\<^verbatim>\<open>Error()\<close>); \<^verbatim>\<open>%q\<close> is Go quoting, written out for quotes and backslashes.\<close>

fun go_quote_chars :: "string \<Rightarrow> string" where
  "go_quote_chars [] = []"
| "go_quote_chars (c # cs) =
     (if c = CHR 0x22 \<or> c = CHR 0x5C then CHR 0x5C # c # go_quote_chars cs
      else c # go_quote_chars cs)"

definition go_quote :: "string \<Rightarrow> string" where
  "go_quote s = CHR 0x22 # go_quote_chars s @ [CHR 0x22]"

primrec error_text :: "goerr \<Rightarrow> string" where
  "error_text (ErrorsNew m) = m"
| "error_text (ErrorQ p a q) = p @ go_quote a @ q"
| "error_text (Errorf p e) = p @ error_text e"
| "error_text (ErrorfOrig p e q) = p @ error_text e @ q"
| "error_text (SimulatedError c m) = m"
| "error_text (QueueError m) = m"
| "error_text (JobCancel e) = ''jobCancelError: '' @ error_text e"
| "error_text (PgError c m) = m @ '' (SQLSTATE '' @ c @ '')''"
| "error_text ErrNoRows = ''sql: no rows in result set''"
| "error_text ErrDuplicateAddressedPush = ''duplicate address''"
| "error_text ErrAgentStopTimeout = ''agent stop timeout''"
| "error_text Canceled = ''context canceled''"
| "error_text DeadlineExceeded = ''context deadline exceeded''"
| "error_text (External m) = m"

section \<open>JSON documents\<close>

text \<open>
  The tree of a JSON document. A \<^verbatim>\<open>[]byte\<close> field is a base64 string on the wire; \<open>JBytes\<close> is that
  string, named by the bytes it encodes. Object members keep their order; a lookup takes the
  last member of a name, as \<^verbatim>\<open>encoding/json\<close> does when it fills a map or a struct.
\<close>

datatype json =
    JNull
  | JBool bool
  | JNum rat
  | JStr string
  | JBytes "uint8 list"
  | JArr "json list"
  | JObj "(string \<times> json) list"

definition jget :: "(string \<times> json) list \<Rightarrow> string \<Rightarrow> json option" where
  "jget ms k = map_of (rev ms) k"

section \<open>Generic facts\<close>

lemma int64_of_id [simp, go_int]: "in_int64 x \<Longrightarrow> int64_of x = x"
  by (simp add: int64_of_def in_int64_def)

lemma int32_of_id [simp, go_int]: "in_int32 x \<Longrightarrow> int32_of x = x"
  by (simp add: int32_of_def in_int32_def)

lemma int64_of_range [go_int]: "in_int64 (int64_of x)"
proof -
  have "0 \<le> (x + 2 ^ 63) mod 2 ^ 64" and "(x + 2 ^ 63) mod 2 ^ 64 < (2 ^ 64 :: int)"
    by (rule pos_mod_sign, simp) (rule pos_mod_bound, simp)
  then show ?thesis
    by (simp add: int64_of_def in_int64_def)
qed

lemma int32_of_range [go_int]: "in_int32 (int32_of x)"
proof -
  have "0 \<le> (x + 2 ^ 31) mod 2 ^ 32" and "(x + 2 ^ 31) mod 2 ^ 32 < (2 ^ 32 :: int)"
    by (rule pos_mod_sign, simp) (rule pos_mod_bound, simp)
  then show ?thesis
    by (simp add: int32_of_def in_int32_def)
qed

lemma int64_of_add [go_int]: "int64_of (int64_of x + y) = int64_of (x + y)"
proof -
  have "(int64_of x + y + 2 ^ 63) mod 2 ^ 64 = ((x + 2 ^ 63) mod 2 ^ 64 + y) mod 2 ^ 64"
    by (simp add: int64_of_def add.commute)
  also have "\<dots> = (x + 2 ^ 63 + y) mod 2 ^ 64" by (rule mod_add_left_eq)
  also have "x + 2 ^ 63 + y = x + y + 2 ^ 63" by simp
  finally show ?thesis by (simp add: int64_of_def [of "int64_of x + y"] int64_of_def [of "x + y"])
qed

lemma int64_of_uint64_range [go_int]: "in_int64 (int64_of_uint64 w)"
  using sint_greater_eq [of w] sint_less [of w]
  by (simp add: in_int64_def int64_of_uint64_def)

lemma uint64_int64_roundtrip [simp, go_int]: "uint64_of_int64 (int64_of_uint64 w) = w"
  by (simp add: int64_of_uint64_def uint64_of_int64_def)

lemma int64_uint64_roundtrip [go_int]: "in_int64 x \<Longrightarrow> int64_of_uint64 (uint64_of_int64 x) = x"
  by (simp add: int64_of_uint64_def uint64_of_int64_def in_int64_def signed_take_bit_int_eq_self
        int_word_sint)

lemma int64_of_uint64_inject [simp, go_int]:
  "int64_of_uint64 a = int64_of_uint64 b \<longleftrightarrow> a = b"
  by (metis uint64_int64_roundtrip)

lemma int64_of_uint64_eq [go_int]:
  "int64_of_uint64 w = (if uint w < 2 ^ 63 then uint w else uint w - 2 ^ 64)"
proof -
  have eq: "int64_of_uint64 w = (uint w + 2 ^ 63) mod 2 ^ 64 - 2 ^ 63"
    using int_word_sint [of "uint w", where 'a = 64] by (simp add: int64_of_uint64_def)
  have b: "0 \<le> uint w" "uint w < 2 ^ 64"
    using uint_lt2p [of w] by simp_all
  show ?thesis
  proof (cases "uint w < 2 ^ 63")
    case True
    with b show ?thesis by (simp add: eq)
  next
    case False
    then have "(uint w + 2 ^ 63) mod 2 ^ 64 = uint w - 2 ^ 63"
      using b mod_add_self2 [of "uint w - 2 ^ 63" "2 ^ 64"]
        mod_pos_pos_trivial [of "uint w - 2 ^ 63" "2 ^ 64"] by (simp add: add.commute)
    with False show ?thesis by (simp add: eq)
  qed
qed

lemma err_chain_self [simp]: "e \<in> set (err_chain e)"
  by (cases e) simp_all

lemma errors_is_refl [simp, err_simps]: "errors_is e e"
  by (simp add: errors_is_def)

lemma errors_is_Errorf [simp, err_simps]:
  "errors_is (Errorf p e) t \<longleftrightarrow> t = Errorf p e \<or> errors_is e t"
  by (auto simp: errors_is_def)

lemma jget_append: "jget (xs @ ys) k = (case jget ys k of None \<Rightarrow> jget xs k | Some v \<Rightarrow> Some v)"
  by (simp add: jget_def map_add_def split: option.split)

lemma jget_Nil [simp]: "jget [] k = None"
  by (simp add: jget_def)

lemma jget_Cons [simp]:
  "jget ((a, v) # xs) k = (case jget xs k of None \<Rightarrow> (if a = k then Some v else None) | Some u \<Rightarrow> Some u)"
  using jget_append [of "[(a, v)]" xs k] by (simp add: jget_def split: option.split)

lemma filter_eq_self: "(\<And>x. x \<in> set xs \<Longrightarrow> P x) \<Longrightarrow> filter P xs = xs"
  by (simp add: filter_id_conv)

lemma distinct_map_filterI [intro]: "distinct (map f xs) \<Longrightarrow> distinct (map f (filter P xs))"
  by (rule distinct_map_filter)

section \<open>Runs of operations\<close>

text \<open>
  The interface of a component whose operations keep an invariant: any sequence of them does.
  Each stateful component of the development provides it.
\<close>

locale invariant_system =
  fixes step :: "'o \<Rightarrow> 's \<Rightarrow> 's"
    and inv :: "'s \<Rightarrow> bool"
  assumes step_inv: "inv s \<Longrightarrow> inv (step x s)"
begin

lemma run_inv: "inv s \<Longrightarrow> inv (fold step xs s)"
  by (induction xs arbitrary: s) (auto intro: step_inv)

end

end
