(* ===== verification/Queue_Contract.thy ===== *)
theory Queue_Contract
  imports Go_Base
begin

text \<open>
  The vendor-neutral contract (\<^verbatim>\<open>internal/queue/queue.go\<close>, \<^verbatim>\<open>internal/queue/harness.go\<close>): jobs,
  payloads, error classes, the adapter configuration and its validation, the default router,
  and the synthetic worker \<open>Simulate\<close>. Durations are \<^verbatim>\<open>time.Duration\<close> values in nanoseconds.
\<close>

section \<open>Data\<close>

type_synonym JobID = string
type_synonym Kind = string
type_synonym ErrorClass = string
type_synonym UUID = "128 word"
type_synonym Duration = int

definition ErrorRateLimit :: ErrorClass where "ErrorRateLimit = ''rate_limit''"
definition ErrorTransient :: ErrorClass where "ErrorTransient = ''transient''"
definition ErrorPermanent :: ErrorClass where "ErrorPermanent = ''permanent''"

text \<open>\<open>Bytes\<close> is \<open>None\<close> for the nil slice.\<close>

record JobPayload =
  WorkMillis :: int
  Bytes :: "uint8 list option"
  FailWithError :: string
  pl_Attempt :: int

record EnqueueRequest =
  req_TenantID :: UUID
  req_Kind :: Kind
  req_Payload :: JobPayload

record Job =
  job_ID :: JobID
  job_TenantID :: UUID
  job_Kind :: Kind
  job_Payload :: JobPayload
  job_Attempt :: int
  EnqueuedAt :: int

record Stats =
  Pending :: int
  Running :: int
  st_Completed :: int
  st_Failed :: int
  Discarded :: int
  WorkersTotal :: int
  WorkersBusy :: int

record QueueConfig =
  MaxWorkers :: int

text \<open>
  A Go map that the code only ranges over or looks up is an association list with distinct
  keys, in the order one \<^verbatim>\<open>range\<close> loop visits it.
\<close>

record Config =
  PostgresURL :: string
  Queues :: "(string \<times> QueueConfig) list"
  MaxAttempts :: int
  ShutdownTimeout :: Duration

text \<open>A context: when it becomes done (nanoseconds from now, \<open>None\<close> for never) and its error.\<close>

record Context =
  ctx_done_at :: "int option"
  ctx_err :: goerr

definition Background :: Context where
  "Background = \<lparr>ctx_done_at = None, ctx_err = Canceled\<rparr>"

definition Millisecond :: Duration where "Millisecond = 1000000"
definition Second :: Duration where "Second = 1000000000"

section \<open>Operations\<close>

fun validateQueues :: "(string \<times> QueueConfig) list \<Rightarrow> goerr option" where
  "validateQueues [] = None"
| "validateQueues ((name, qc) # qs) =
     (if MaxWorkers qc \<le> 0
      then Some (ErrorQ ''Config.Queues['' name ''].MaxWorkers must be > 0'')
      else validateQueues qs)"

definition Validate :: "Config \<Rightarrow> goerr option" where
  "Validate c =
     (if PostgresURL c = '''' then Some (ErrorsNew ''Config.PostgresURL is required'')
      else if length (Queues c) = 0
      then Some (ErrorsNew ''Config.Queues must specify at least one queue'')
      else case validateQueues (Queues c) of
        Some e \<Rightarrow> Some e
      | None \<Rightarrow>
          if MaxAttempts c < 1 then Some (ErrorsNew ''Config.MaxAttempts must be >= 1'')
          else if ShutdownTimeout c \<le> 0
          then Some (ErrorsNew ''Config.ShutdownTimeout must be > 0'')
          else None)"

definition DefaultRouter :: "Kind \<Rightarrow> string" where
  "DefaultRouter k = ''default''"

text \<open>
  \<open>select_timer d ctx pick\<close> is the two-way \<^verbatim>\<open>select\<close> between \<^verbatim>\<open>time.After(d)\<close> and \<^verbatim>\<open>ctx.Done()\<close>: the
  earlier event wins, \<open>pick\<close> decides when both are ready at once (Go chooses at random). A timer
  with a non-positive duration fires at once. The result is the error and the time waited.
\<close>

definition select_timer :: "Duration \<Rightarrow> Context \<Rightarrow> bool \<Rightarrow> goerr option \<times> Duration" where
  "select_timer d ctx pick =
     (let t = max 0 d in
      case ctx_done_at ctx of
        None \<Rightarrow> (None, t)
      | Some a \<Rightarrow>
          let u = max 0 a in
          if t < u then (None, t)
          else if u < t then (Some (ctx_err ctx), u)
          else if pick then (None, t) else (Some (ctx_err ctx), u))"

definition Simulate :: "Context \<Rightarrow> bool \<Rightarrow> Job \<Rightarrow> goerr option \<times> Duration" where
  "Simulate ctx pick job =
     (let p = job_Payload job in
      if FailWithError p \<noteq> '''' then
        (if FailWithError p = ErrorRateLimit
         then (Some (SimulatedError ErrorRateLimit ''simulated rate limit''), 0)
         else if FailWithError p = ErrorPermanent
         then (Some (SimulatedError ErrorPermanent ''simulated permanent error''), 0)
         else if FailWithError p = ErrorTransient
         then (Some (SimulatedError ErrorTransient ''simulated transient error''), 0)
         else (Some (SimulatedError (FailWithError p) ''simulated error''), 0))
      else if WorkMillis p \<le> 0 then (None, 0)
      else select_timer (int64_of (WorkMillis p * Millisecond)) ctx pick)"

text \<open>\<open>IsSimulatedError\<close> is \<^verbatim>\<open>errors.As\<close>: the first simulated error of the chain, its class.\<close>

fun first_simulated :: "goerr list \<Rightarrow> ErrorClass option" where
  "first_simulated [] = None"
| "first_simulated (SimulatedError c m # es) = Some c"
| "first_simulated (e # es) = first_simulated es"

definition IsSimulatedError :: "goerr \<Rightarrow> ErrorClass option" where
  "IsSimulatedError e = first_simulated (err_chain e)"

text \<open>The number of worker slots, the sum both adapters compute over \<open>Queues\<close>.\<close>

definition totalWorkers :: "Config \<Rightarrow> int" where
  "totalWorkers c = fold (\<lambda>(_, qc) t. int64_of (t + MaxWorkers qc)) (Queues c) 0"

definition zero_Stats :: Stats where
  "zero_Stats = \<lparr>Pending = 0, Running = 0, st_Completed = 0, st_Failed = 0, Discarded = 0,
     WorkersTotal = 0, WorkersBusy = 0\<rparr>"

text \<open>A concrete job for the witnesses.\<close>

definition sample_job :: "int \<Rightarrow> string \<Rightarrow> Job" where
  "sample_job w f = \<lparr>job_ID = ''bench:1'', job_TenantID = 7, job_Kind = ''entity_update'',
     job_Payload = \<lparr>WorkMillis = w, Bytes = None, FailWithError = f, pl_Attempt = 0\<rparr>,
     job_Attempt = 1, EnqueuedAt = 0\<rparr>"

section \<open>Facts\<close>

lemmas error_class_defs = ErrorRateLimit_def ErrorTransient_def ErrorPermanent_def

lemma validateQueues_None:
  "validateQueues qs = None \<longleftrightarrow> (\<forall>(n, qc) \<in> set qs. 0 < MaxWorkers qc)"
  by (induction qs rule: validateQueues.induct) auto

lemma validateQueues_mset:
  "mset qs = mset qs' \<Longrightarrow> (validateQueues qs = None) = (validateQueues qs' = None)"
  by (metis validateQueues_None set_mset_mset)

lemma Validate_None:
  "Validate c = None \<longleftrightarrow>
     PostgresURL c \<noteq> '''' \<and> Queues c \<noteq> [] \<and> (\<forall>(n, qc) \<in> set (Queues c). 0 < MaxWorkers qc)
     \<and> 1 \<le> MaxAttempts c \<and> 0 < ShutdownTimeout c"
proof (cases "validateQueues (Queues c)")
  case None
  then show ?thesis using validateQueues_None [of "Queues c"] by (auto simp: Validate_def)
next
  case (Some e)
  then have "validateQueues (Queues c) \<noteq> None" by simp
  then show ?thesis using Some unfolding validateQueues_None by (auto simp: Validate_def)
qed

lemma IsSimulatedError_simps [simp, err_simps]:
  "IsSimulatedError (SimulatedError c m) = Some c"
  "IsSimulatedError (Errorf p e) = IsSimulatedError e"
  "IsSimulatedError (ErrorfOrig p e q) = IsSimulatedError e"
  "IsSimulatedError (JobCancel e) = IsSimulatedError e"
  "IsSimulatedError (ErrorsNew m) = None"
  "IsSimulatedError (ErrorQ a b d) = None"
  "IsSimulatedError Canceled = None"
  "IsSimulatedError DeadlineExceeded = None"
  "IsSimulatedError (External t) = None"
  by (simp_all add: IsSimulatedError_def)

lemma Simulate_injected:
  "FailWithError (job_Payload job) \<noteq> '''' \<Longrightarrow>
     \<exists>m. Simulate ctx pick job = (Some (SimulatedError (FailWithError (job_Payload job)) m), 0)"
  by (auto simp: Simulate_def Let_def)

lemma select_timer_background [simp]:
  "ctx_done_at ctx = None \<Longrightarrow> select_timer d ctx pick = (None, max 0 d)"
  by (simp add: select_timer_def)

lemma millis_in_range:
  "0 \<le> w \<Longrightarrow> w \<le> 9223372036854 \<Longrightarrow> in_int64 (w * Millisecond)"
  by (simp add: in_int64_def Millisecond_def)

section \<open>Properties\<close>

text \<open>
  a configuration is accepted exactly when the URL is set, there is a queue, every queue has
  at least one worker, there is at least one attempt and the shutdown timeout is positive; so
  acceptance does not depend on the order in which the map of queues is visited.
\<close>

theorem Validate_accepts_iff:
  assumes "mset qs = mset (Queues c)"
  shows "Validate (c\<lparr>Queues := qs\<rparr>) = None \<longleftrightarrow>
     PostgresURL c \<noteq> '''' \<and> Queues c \<noteq> [] \<and> (\<forall>(n, qc) \<in> set (Queues c). 0 < MaxWorkers qc)
     \<and> 1 \<le> MaxAttempts c \<and> 0 < ShutdownTimeout c"
  using assms mset_eq_setD [OF assms] by (auto simp: Validate_None)

theorem Validate_accepts_iff_witness:
  "Validate \<lparr>PostgresURL = ''pg'',
     Queues = [(''b'', \<lparr>MaxWorkers = 1\<rparr>), (''a'', \<lparr>MaxWorkers = 2\<rparr>)], MaxAttempts = 3,
     ShutdownTimeout = 5\<rparr> = None"
  using Validate_accepts_iff [of "[(''b'', \<lparr>MaxWorkers = 1\<rparr>), (''a'', \<lparr>MaxWorkers = 2\<rparr>)]"
    "\<lparr>PostgresURL = ''pg'', Queues = [(''a'', \<lparr>MaxWorkers = 2\<rparr>), (''b'', \<lparr>MaxWorkers = 1\<rparr>)],
      MaxAttempts = 3, ShutdownTimeout = 5\<rparr>"]
  by simp

text \<open>
  error injection wins over everything else: a job whose payload asks for a failure fails at
  once, whatever its duration and its context, and the adapter recognises the requested class
  through any number of wrappings.
\<close>

theorem Simulate_honours_injection:
  assumes "FailWithError (job_Payload job) \<noteq> ''''"
  shows "\<exists>e. Simulate ctx pick job = (Some e, 0)
           \<and> IsSimulatedError (Errorf p e) = Some (FailWithError (job_Payload job))"
  using Simulate_injected [OF assms, of ctx pick] by auto

text \<open>
  without injection a job of \<open>w\<close> milliseconds (\<open>w\<close> below the overflow of \<^verbatim>\<open>time.Duration\<close>) whose
  context ends later, or never, succeeds after exactly \<open>w\<close> milliseconds; when the context ends
  earlier the worker returns the context's error at that moment.
\<close>

theorem Simulate_waits:
  assumes "FailWithError (job_Payload job) = ''''"
    and "0 < WorkMillis (job_Payload job)" and "WorkMillis (job_Payload job) \<le> 9223372036854"
  shows "Simulate ctx pick job =
      (case ctx_done_at ctx of
         None \<Rightarrow> (None, WorkMillis (job_Payload job) * Millisecond)
       | Some a \<Rightarrow>
           if WorkMillis (job_Payload job) * Millisecond < a
              \<or> WorkMillis (job_Payload job) * Millisecond = a \<and> pick
           then (None, WorkMillis (job_Payload job) * Millisecond)
           else (Some (ctx_err ctx), max 0 a))"
proof -
  have r: "int64_of (WorkMillis (job_Payload job) * Millisecond) = WorkMillis (job_Payload job) * Millisecond"
    using assms by (simp add: millis_in_range)
  have pos: "0 < WorkMillis (job_Payload job) * Millisecond"
    using assms by (simp add: Millisecond_def)
  show ?thesis
    using assms pos r by (auto simp: Simulate_def Let_def select_timer_def max_def split: option.split)
qed

theorem Simulate_honours_injection_witness:
  "\<exists>e. Simulate Background True (sample_job 10 ''permanent'') = (Some e, 0)
     \<and> IsSimulatedError (Errorf ''run: '' e) = Some ''permanent''"
  using Simulate_honours_injection [of "sample_job 10 ''permanent''" Background True "''run: ''"]
  by (simp add: sample_job_def)

theorem Simulate_waits_witness:
  "Simulate \<lparr>ctx_done_at = Some 4000000, ctx_err = DeadlineExceeded\<rparr> True (sample_job 10 '''')
     = (Some DeadlineExceeded, 4000000)"
  using Simulate_waits [of "sample_job 10 ''''" "\<lparr>ctx_done_at = Some 4000000, ctx_err = DeadlineExceeded\<rparr>" True]
  by (simp add: sample_job_def Millisecond_def)

end
