(* ===== verification/Job_Codec.thy ===== *)
theory Job_Codec
  imports Queue_Contract
begin

text \<open>
  How a job travels: decimal printing (\<^verbatim>\<open>%d\<close>), and the JSON form of a \<^verbatim>\<open>JobPayload\<close> under its struct
  tags, which both adapters nest in their own work types. Strings are the byte strings of
  valid UTF-8 texts. The decoders read the documents the program writes: a missing member and a
  null leave the zero value, a member of the wrong type or out of range is an error; Go's
  case-insensitive second choice for a member name is left out.
\<close>

section \<open>Decimal numbers\<close>

definition digit :: "nat \<Rightarrow> char" where
  "digit n = char_of (48 + n)"

fun dec_of_nat :: "nat \<Rightarrow> string" where
  "dec_of_nat n = (if n < 10 then [digit n] else dec_of_nat (n div 10) @ [digit (n mod 10)])"

declare dec_of_nat.simps [simp del]

definition nat_of_dec :: "string \<Rightarrow> nat" where
  "nat_of_dec s = foldl (\<lambda>a c. 10 * a + (of_char c - 48)) 0 s"

definition dec_of_int :: "int \<Rightarrow> string" where
  "dec_of_int i = (if i < 0 then CHR ''-'' # dec_of_nat (nat (- i)) else dec_of_nat (nat i))"

section \<open>Members of a JSON object\<close>

text \<open>Integers: \<open>lo\<close> and \<open>hi\<close> are the bounds of the Go type.\<close>

definition field_int :: "int \<Rightarrow> int \<Rightarrow> json option \<Rightarrow> goerr + int" where
  "field_int lo hi v =
     (case v of
        None \<Rightarrow> Inr 0
      | Some JNull \<Rightarrow> Inr 0
      | Some (JNum q) \<Rightarrow>
          if of_int \<lfloor>q\<rfloor> = q \<and> lo \<le> \<lfloor>q\<rfloor> \<and> \<lfloor>q\<rfloor> \<le> hi then Inr \<lfloor>q\<rfloor>
          else Inl (External ''json: cannot unmarshal number'')
      | Some _ \<Rightarrow> Inl (External ''json: cannot unmarshal value''))"

definition field_str :: "json option \<Rightarrow> goerr + string" where
  "field_str v =
     (case v of
        None \<Rightarrow> Inr ''''
      | Some JNull \<Rightarrow> Inr ''''
      | Some (JStr s) \<Rightarrow> Inr s
      | Some _ \<Rightarrow> Inl (External ''json: cannot unmarshal value''))"

definition field_bytes :: "json option \<Rightarrow> goerr + uint8 list option" where
  "field_bytes v =
     (case v of
        None \<Rightarrow> Inr None
      | Some JNull \<Rightarrow> Inr None
      | Some (JBytes b) \<Rightarrow> Inr (Some b)
      | Some _ \<Rightarrow> Inl (External ''json: cannot unmarshal value''))"

section \<open>The payload\<close>

definition marshal_payload :: "JobPayload \<Rightarrow> json" where
  "marshal_payload p =
     JObj ([(''work_millis'', JNum (of_int (WorkMillis p))),
            (''bytes'', case Bytes p of None \<Rightarrow> JNull | Some b \<Rightarrow> JBytes b)]
       @ (if FailWithError p = '''' then [] else [(''fail_with_error'', JStr (FailWithError p))])
       @ (if pl_Attempt p = 0 then [] else [(''attempt'', JNum (of_int (pl_Attempt p)))]))"

definition zero_payload :: JobPayload where
  "zero_payload = \<lparr>WorkMillis = 0, Bytes = None, FailWithError = '''', pl_Attempt = 0\<rparr>"

definition unmarshal_payload :: "json option \<Rightarrow> goerr + JobPayload" where
  "unmarshal_payload v =
     (case v of
        None \<Rightarrow> Inr zero_payload
      | Some JNull \<Rightarrow> Inr zero_payload
      | Some (JObj ms) \<Rightarrow>
          (case field_int (- (2 ^ 63)) (2 ^ 63 - 1) (jget ms ''work_millis'') of
             Inl e \<Rightarrow> Inl e
           | Inr wm \<Rightarrow>
               (case field_bytes (jget ms ''bytes'') of
                  Inl e \<Rightarrow> Inl e
                | Inr b \<Rightarrow>
                    (case field_str (jget ms ''fail_with_error'') of
                       Inl e \<Rightarrow> Inl e
                     | Inr f \<Rightarrow>
                         (case field_int (- (2 ^ 31)) (2 ^ 31 - 1) (jget ms ''attempt'') of
                            Inl e \<Rightarrow> Inl e
                          | Inr a \<Rightarrow> Inr \<lparr>WorkMillis = wm, Bytes = b, FailWithError = f, pl_Attempt = a\<rparr>))))
      | Some _ \<Rightarrow> Inl (External ''json: cannot unmarshal value''))"

text \<open>The payloads Go can hold: the integer fields within their types.\<close>

definition wf_payload :: "JobPayload \<Rightarrow> bool" where
  "wf_payload p \<longleftrightarrow> in_int64 (WorkMillis p) \<and> in_int32 (pl_Attempt p)"

section \<open>Facts\<close>

lemma digit_value: "n < 10 \<Longrightarrow> of_char (digit n) - (48::nat) = n"
  by (simp add: digit_def)

lemma nat_of_dec_snoc: "nat_of_dec (s @ [c]) = 10 * nat_of_dec s + (of_char c - 48)"
  by (simp add: nat_of_dec_def)

lemma nat_of_dec_of_nat [simp]: "nat_of_dec (dec_of_nat n) = n"
proof (induction n rule: dec_of_nat.induct)
  case (1 n)
  show ?case
  proof (cases "n < 10")
    case True
    then show ?thesis
      by (simp add: dec_of_nat.simps [of n] nat_of_dec_def digit_value)
  next
    case False
    then show ?thesis
      using 1 by (simp add: dec_of_nat.simps [of n] nat_of_dec_snoc digit_value)
  qed
qed

lemma dec_of_nat_inject [simp]: "dec_of_nat m = dec_of_nat n \<longleftrightarrow> m = n"
  by (metis nat_of_dec_of_nat)

lemma field_simps [simp]:
  "lo \<le> i \<Longrightarrow> i \<le> hi \<Longrightarrow> field_int lo hi (Some (JNum (of_int i))) = Inr i"
  "field_int lo hi None = Inr 0"
  "field_str (Some (JStr s)) = Inr s" "field_str None = Inr ''''"
  "field_bytes (Some (JBytes b)) = Inr (Some b)" "field_bytes (Some JNull) = Inr None"
  by (simp_all add: field_int_def field_str_def field_bytes_def)

lemma unmarshal_marshal_payload:
  "wf_payload p \<Longrightarrow> unmarshal_payload (Some (marshal_payload p)) = Inr p"
  by (cases "Bytes p")
     (simp_all add: unmarshal_payload_def marshal_payload_def wf_payload_def in_int64_def in_int32_def)

end
