(* ===== verification/Harness_Interface.thy ===== *)
theory Harness_Interface
  imports Job_Codec
begin

text \<open>
  The part of the \<^verbatim>\<open>Harness\<close> interface (\<^verbatim>\<open>internal/queue/queue.go\<close>) that its client, the benchmark
  runner, relies on while it sets an adapter up: \<open>Register\<close> before \<open>Start\<close>, one worker per kind, and a
  table of workers that does not change once the harness runs. Both adapters provide it.
\<close>

text \<open>What a call of \<open>Stop\<close> ends in.\<close>

datatype stop_result = Returned "goerr option" | Panicked string

text \<open>Registering a list of workers until one is refused, as the client does.\<close>

fun register_all :: "(Kind \<Rightarrow> 'f \<Rightarrow> 'h \<Rightarrow> goerr option \<times> 'h) \<Rightarrow> (Kind \<times> 'f) list \<Rightarrow> 'h \<Rightarrow> goerr option \<times> 'h" where
  "register_all reg [] h = (None, h)"
| "register_all reg ((k, f) # ws) h =
     (case reg k f h of (Some e, h') \<Rightarrow> (Some e, h') | (None, h') \<Rightarrow> register_all reg ws h')"

locale harness =
  fixes register :: "Kind \<Rightarrow> 'f \<Rightarrow> 'h \<Rightarrow> goerr option \<times> 'h"
    and start :: "'h \<Rightarrow> goerr option \<times> 'h"
    and running :: "'h \<Rightarrow> bool"
    and worker_of :: "'h \<Rightarrow> Kind \<Rightarrow> 'f option"
  assumes register_refused: "running h \<or> worker_of h k \<noteq> None \<Longrightarrow> \<exists>e. register k f h = (Some e, h)"
    and register_accepted: "\<not> running h \<Longrightarrow> worker_of h k = None \<Longrightarrow>
      \<exists>h'. register k f h = (None, h') \<and> \<not> running h' \<and> worker_of h' = (worker_of h)(k \<mapsto> f)"
    and start_twice: "running h \<Longrightarrow> \<exists>e. start h = (Some e, h)"
    and start_runs: "start h = (None, h') \<Longrightarrow> running h' \<and> worker_of h' = worker_of h"
begin

lemma register_iff: "fst (register k f h) = None \<longleftrightarrow> \<not> running h \<and> worker_of h k = None"
  using register_refused [of h k f] register_accepted [of h k f] by force

lemma register_all_distinct:
  assumes "\<not> running h" and "distinct (map fst ws)" and "\<forall>k \<in> fst ` set ws. worker_of h k = None"
  shows "\<exists>h'. register_all register ws h = (None, h') \<and> \<not> running h' \<and> worker_of h' = worker_of h ++ map_of ws"
  using assms
proof (induction ws arbitrary: h)
  case Nil
  then show ?case by simp
next
  case (Cons kf ws)
  obtain k f where kf: "kf = (k, f)" by fastforce
  obtain h1 where h1: "register k f h = (None, h1)" "\<not> running h1" "worker_of h1 = (worker_of h)(k \<mapsto> f)"
    using register_accepted [of h k f] Cons.prems kf by auto
  have "\<forall>j \<in> fst ` set ws. worker_of h1 j = None"
    using Cons.prems kf h1(3) by auto
  then obtain h2 where h2: "register_all register ws h1 = (None, h2)" "\<not> running h2" "worker_of h2 = worker_of h1 ++ map_of ws"
    using Cons.IH [OF h1(2)] Cons.prems(2) by auto
  have "k \<notin> dom (map_of ws)"
    using Cons.prems(2) kf by (simp add: dom_map_of_conv_image_fst)
  then have "worker_of h1 ++ map_of ws = worker_of h ++ map_of (kf # ws)"
    using h1(3) kf by (auto simp: map_add_def fun_eq_iff split: option.split)
  then have "worker_of h2 = worker_of h ++ map_of (kf # ws)" using h2(3) by (rule trans [rotated])
  moreover have "register_all register (kf # ws) h = (None, h2)" using h1(1) h2(1) by (simp add: kf)
  ultimately show ?case using h2(2) by blast
qed

lemma register_all_running:
  assumes "running h"
  shows "snd (register_all register ws h) = h"
proof (cases ws)
  case (Cons kf ws')
  obtain k f where "kf = (k, f)" by fastforce
  then show ?thesis using register_refused [of h k f] assms Cons by auto
qed simp

text \<open>A harness that is set up and started runs exactly the workers it was given, whatever is tried later.\<close>

lemma started_workers:
  assumes "\<not> running h" and "worker_of h = Map.empty" and "distinct (map fst ws)"
    and "register_all register ws h = (e, h1)" and "start h1 = (None, h2)"
    and "register_all register later h2 = (e', h3)"
  shows "e = None \<and> running h3 \<and> worker_of h3 = map_of ws"
proof -
  obtain h' where "register_all register ws h = (None, h')" "worker_of h' = Map.empty ++ map_of ws"
    using register_all_distinct [OF assms(1,3)] assms(2) by auto
  then have 1: "e = None" "worker_of h1 = map_of ws" using assms(4) by auto
  then have 2: "running h2" "worker_of h2 = map_of ws" using start_runs [OF assms(5)] by auto
  show ?thesis using 1 2 register_all_running [of h2 later] assms(6) by simp
qed

end

end
