(* ===== verification/Claim_Queue.thy ===== *)
theory Claim_Queue
  imports Go_Base
begin

text \<open>
  The contract a work queue gives to its consumers, as an interface: an operation that takes a
  waiting element which no other waiting element precedes, and fails only when nothing waits.
  The client side, a consumer that takes elements until none is left, is proved once here, and
  the store of the platform-lib adapter provides the interface (theory \<open>Pg_Store\<close>).
\<close>

section \<open>Consumers\<close>

text \<open>Take up to \<open>n\<close> elements.\<close>

fun drain :: "('s \<Rightarrow> ('a \<times> 's) option) \<Rightarrow> nat \<Rightarrow> 's \<Rightarrow> 'a list \<times> 's" where
  "drain pop 0 s = ([], s)"
| "drain pop (Suc n) s =
     (case pop s of
        None \<Rightarrow> ([], s)
      | Some (x, s') \<Rightarrow> (case drain pop n s' of (xs, t) \<Rightarrow> (x # xs, t)))"

section \<open>The interface\<close>

locale claim_queue =
  fixes invar :: "'s \<Rightarrow> bool"
    and waiting :: "'s \<Rightarrow> 'a list"
    and before :: "'a \<Rightarrow> 'a \<Rightarrow> bool"
    and pop :: "'s \<Rightarrow> ('a \<times> 's) option"
  assumes pop_None: "invar s \<Longrightarrow> (pop s = None) = (waiting s = [])"
    and pop_elem: "invar s \<Longrightarrow> pop s = Some (x, s') \<Longrightarrow> x \<in> set (waiting s)"
    and pop_first: "invar s \<Longrightarrow> pop s = Some (x, s') \<Longrightarrow> y \<in> set (waiting s) \<Longrightarrow> before x y"
    and pop_rest: "invar s \<Longrightarrow> pop s = Some (x, s') \<Longrightarrow> mset (waiting s) = add_mset x (mset (waiting s'))"
    and pop_invar: "invar s \<Longrightarrow> pop s = Some (x, s') \<Longrightarrow> invar s'"
begin

lemma drain_invar: "invar s \<Longrightarrow> drain pop n s = (xs, t) \<Longrightarrow> invar t"
proof (induction n arbitrary: s xs t)
  case 0
  then show ?case by simp
next
  case (Suc n)
  then show ?case
    by (auto split: option.splits prod.splits dest: pop_invar)
qed

lemma drain_mset:
  "invar s \<Longrightarrow> drain pop n s = (xs, t) \<Longrightarrow> mset (waiting s) = mset xs + mset (waiting t)"
proof (induction n arbitrary: s xs t)
  case 0
  then show ?case by simp
next
  case (Suc n)
  show ?case
  proof (cases "pop s")
    case None
    with Suc.prems show ?thesis by simp
  next
    case (Some xs')
    obtain x s' where p: "pop s = Some (x, s')" using Some by (cases xs') auto
    obtain ys u where d: "drain pop n s' = (ys, u)" by fastforce
    from Suc.prems p d have "xs = x # ys" "t = u" by auto
    with Suc.IH [OF pop_invar [OF Suc.prems(1) p] d] pop_rest [OF Suc.prems(1) p]
    show ?thesis by simp
  qed
qed

lemma drain_sorted:
  "invar s \<Longrightarrow> drain pop n s = (xs, t) \<Longrightarrow> sorted_wrt before xs"
proof (induction n arbitrary: s xs t)
  case 0
  then show ?case by simp
next
  case (Suc n)
  show ?case
  proof (cases "pop s")
    case None
    with Suc.prems show ?thesis by simp
  next
    case (Some xs')
    obtain x s' where p: "pop s = Some (x, s')" using Some by (cases xs') auto
    obtain ys u where d: "drain pop n s' = (ys, u)" by fastforce
    from Suc.prems p d have xs: "xs = x # ys" by auto
    have "set ys \<subseteq> set (waiting s)"
      using drain_mset [OF pop_invar [OF Suc.prems(1) p] d] pop_rest [OF Suc.prems(1) p]
      by (metis (no_types, lifting) set_mset_add_mset_insert set_mset_mset set_mset_union
          subset_insertI2 sup_ge1)
    with pop_first [OF Suc.prems(1) p] Suc.IH [OF pop_invar [OF Suc.prems(1) p] d] xs
    show ?thesis by auto
  qed
qed

lemma drain_complete:
  "invar s \<Longrightarrow> length (waiting s) \<le> n \<Longrightarrow> drain pop n s = (xs, t) \<Longrightarrow> waiting t = []"
proof (induction n arbitrary: s xs t)
  case 0
  then show ?case by simp
next
  case (Suc n)
  show ?case
  proof (cases "pop s")
    case None
    with Suc.prems show ?thesis by (simp add: pop_None)
  next
    case (Some xs')
    obtain x s' where p: "pop s = Some (x, s')" using Some by (cases xs') auto
    obtain ys u where d: "drain pop n s' = (ys, u)" by fastforce
    have "length (waiting s) = Suc (length (waiting s'))"
      using pop_rest [OF Suc.prems(1) p] by (metis size_add_mset size_mset)
    with Suc.prems p d Suc.IH [OF pop_invar [OF Suc.prems(1) p] _ d] show ?thesis by auto
  qed
qed

text \<open>Draining takes every waiting element exactly once, in order.\<close>

lemma drain_all:
  assumes "invar s" and "length (waiting s) \<le> n" and "drain pop n s = (xs, t)"
  shows "mset xs = mset (waiting s) \<and> sorted_wrt before xs \<and> waiting t = [] \<and> invar t"
  using drain_mset [OF assms(1,3)] drain_sorted [OF assms(1,3)] drain_complete [OF assms]
    drain_invar [OF assms(1,3)]
  by simp

end

end
