(* ===== verification/Pg_Store.thy ===== *)
theory Pg_Store
  imports Queue_Contract Claim_Queue "HOL-Library.AList"
begin

text \<open>
  The Postgres-backed queue store of the platform-lib adapter: \<^verbatim>\<open>platlib/store.go\<close>, its tables in
  \<^verbatim>\<open>platlib/schema.sql\<close> and the channel names of \<^verbatim>\<open>platlib/constants.go\<close>.

  The database is explicit. \<open>pool\<close> holds the committed tables; an open transaction is the list of
  row changes it has made so far, and what a statement inside it sees is the committed tables
  with its own changes applied (read committed); the two \<^verbatim>\<open>BIGSERIAL\<close> sequences are not
  transactional. \<open>faults\<close> scripts what the database answers to the coming statements (\<open>None\<close> for
  success, and success once the script is used up), so that every error branch of the code is a
  branch of the model. The columns \<^verbatim>\<open>created_at\<close> and \<^verbatim>\<open>updated_at\<close> are written and never read by the
  program, and are left out.
\<close>

named_theorems store_simps "one-step equations of the store operations"

section \<open>Constants, rows and tables\<close>

definition channelMessages :: string where "channelMessages = ''messages''"
definition queueReadyChannel :: string where "queueReadyChannel = channelMessages"
definition notifyTypeQueue :: uint8 where "notifyTypeQueue = 1"
definition notifyTypeWorkComplete :: uint8 where "notifyTypeWorkComplete = 2"
definition notifyTypeChunk :: uint8 where "notifyTypeChunk = 3"
definition benchQueueName :: string where "benchQueueName = ''benchmark''"

record queue_row =
  row_id :: int
  row_name :: string
  row_priority :: int
  row_permit :: int
  row_item :: json
  row_group_id :: "int option"
  row_type :: int
  row_address :: "string option"
  row_carrier :: "uint8 list option"

record tables =
  queue :: "queue_row list"
  queue_permits :: "int list"
  queue_failure :: "(string \<times> string) list"

record queueDbNote =
  NotifyType :: uint8

record pendingNote =
  channel :: string
  payload :: queueDbNote

text \<open>The row changes the statements of the store make.\<close>

datatype dml =
    InsQueue queue_row
  | SetPermit int int
  | DelQueueByPermit int
  | InsPermit int
  | DelPermit int
  | DelFailure string
  | InsFailure string string

record pg_tx =
  tx_log :: "dml list"
  tx_aborted :: bool

record pg_world =
  has_schema :: bool
  pool :: tables
  queue_id_seq :: int
  permits_id_seq :: int
  open_txs :: "(nat \<times> pg_tx) list"
  next_tx :: nat
  notified :: "(string \<times> queueDbNote) list"
  faults :: "goerr option list"

record pgStore =
  tx :: "nat option"
  notifier :: bool
  pendingNotifications :: "pendingNote list"

text \<open>\<^verbatim>\<open>plqueue.QueueWork\<close>, the value the store hands to the agent.\<close>

record QueueWork =
  Permit :: uint64
  Address :: string
  WorkType :: uint64
  Work :: json
  Carrier :: "uint8 list"

definition empty_tables :: tables where
  "empty_tables = \<lparr>queue = [], queue_permits = [], queue_failure = []\<rparr>"

definition empty_world :: pg_world where
  "empty_world = \<lparr>has_schema = False, pool = empty_tables, queue_id_seq = 0, permits_id_seq = 0,
     open_txs = [], next_tx = 0, notified = [], faults = []\<rparr>"

section \<open>The database\<close>

definition set_permit :: "int \<Rightarrow> int \<Rightarrow> queue_row \<Rightarrow> queue_row" where
  "set_permit i p r = (if row_id r = i then r\<lparr>row_permit := p\<rparr> else r)"

fun apply_dml :: "dml \<Rightarrow> tables \<Rightarrow> tables" where
  "apply_dml (InsQueue r) T = T\<lparr>queue := queue T @ [r]\<rparr>"
| "apply_dml (SetPermit i p) T =
     T\<lparr>queue := map (set_permit i p) (queue T)\<rparr>"
| "apply_dml (DelQueueByPermit p) T = T\<lparr>queue := filter (\<lambda>r. row_permit r \<noteq> p) (queue T)\<rparr>"
| "apply_dml (InsPermit p) T = T\<lparr>queue_permits := queue_permits T @ [p]\<rparr>"
| "apply_dml (DelPermit p) T = T\<lparr>queue_permits := filter (\<lambda>q. q \<noteq> p) (queue_permits T)\<rparr>"
| "apply_dml (DelFailure a) T = T\<lparr>queue_failure := filter (\<lambda>f. fst f \<noteq> a) (queue_failure T)\<rparr>"
| "apply_dml (InsFailure a e) T = T\<lparr>queue_failure := queue_failure T @ [(a, e)]\<rparr>"

definition apply_log :: "dml list \<Rightarrow> tables \<Rightarrow> tables" where
  "apply_log ds T = fold apply_dml ds T"

text \<open>The rows a change locks until its transaction ends.\<close>

fun touched :: "dml \<Rightarrow> tables \<Rightarrow> int list" where
  "touched (SetPermit i p) T = [i]"
| "touched (DelQueueByPermit p) T = map row_id (filter (\<lambda>r. row_permit r = p) (queue T))"
| "touched d T = []"

definition locked_rows :: "nat option \<Rightarrow> pg_world \<Rightarrow> int list" where
  "locked_rows me w =
     concat (map (\<lambda>(t, x). if Some t = me then []
        else concat (map (\<lambda>d. touched d (pool w)) (tx_log x))) (open_txs w))"

definition begin_tx :: "pg_world \<Rightarrow> (goerr + nat) \<times> pg_world" where
  "begin_tx w =
     (let open = (\<lambda>u. (Inr (next_tx u),
        u\<lparr>open_txs := AList.update (next_tx u) \<lparr>tx_log = [], tx_aborted = False\<rparr> (open_txs u),
          next_tx := Suc (next_tx u)\<rparr>))
      in case faults w of
           [] \<Rightarrow> open w
         | None # fs \<Rightarrow> open (w\<lparr>faults := fs\<rparr>)
         | Some e # fs \<Rightarrow> (Inl e, w\<lparr>faults := fs\<rparr>))"

definition close_tx :: "nat \<Rightarrow> pg_world \<Rightarrow> pg_world" where
  "close_tx t w = w\<lparr>open_txs := AList.delete t (open_txs w)\<rparr>"

definition rollback_tx :: "nat \<Rightarrow> pg_world \<Rightarrow> pg_world" where
  "rollback_tx t w = close_tx t w"

text \<open>
  A commit that the database refuses, and the commit of a transaction in which a statement has
  failed, leave the committed tables as they were.
\<close>

definition commit_tx :: "nat \<Rightarrow> pg_world \<Rightarrow> goerr option \<times> pg_world" where
  "commit_tx t w =
     (case map_of (open_txs w) t of
        None \<Rightarrow> (Some (External ''tx is closed''), w)
      | Some x \<Rightarrow>
          if tx_aborted x
          then (Some (External ''commit unexpectedly resulted in rollback''), close_tx t w)
          else
            let done = (\<lambda>u. (None, close_tx t (u\<lparr>pool := apply_log (tx_log x) (pool u)\<rparr>)))
            in case faults w of
                 [] \<Rightarrow> done w
               | None # fs \<Rightarrow> done (w\<lparr>faults := fs\<rparr>)
               | Some e # fs \<Rightarrow> (Some e, close_tx t (w\<lparr>faults := fs\<rparr>)))"

section \<open>Statements of a store\<close>

text \<open>The tables as a statement of this store sees them.\<close>

definition view :: "pgStore \<Rightarrow> pg_world \<Rightarrow> tables" where
  "view s w =
     (case tx s of
        None \<Rightarrow> pool w
      | Some t \<Rightarrow>
          (case map_of (open_txs w) t of
             None \<Rightarrow> pool w
           | Some x \<Rightarrow> apply_log (tx_log x) (pool w)))"

text \<open>A failing statement aborts the transaction it is in: its changes and locks are gone.\<close>

definition abort_tx :: "pgStore \<Rightarrow> pg_world \<Rightarrow> pg_world" where
  "abort_tx s w =
     (case tx s of
        None \<Rightarrow> w
      | Some t \<Rightarrow> w\<lparr>open_txs := AList.update t \<lparr>tx_log = [], tx_aborted = True\<rparr> (open_txs w)\<rparr>)"

text \<open>Whether the next statement of this store is carried out, or which error it returns.\<close>

definition stmt :: "pgStore \<Rightarrow> pg_world \<Rightarrow> goerr option \<times> pg_world" where
  "stmt s w =
     (let go = (case faults w of
          [] \<Rightarrow> (None, w)
        | None # fs \<Rightarrow> (None, w\<lparr>faults := fs\<rparr>)
        | Some e # fs \<Rightarrow> (Some e, abort_tx s (w\<lparr>faults := fs\<rparr>)))
      in case tx s of
           None \<Rightarrow> go
         | Some t \<Rightarrow>
             (case map_of (open_txs w) t of
                None \<Rightarrow> (Some (External ''tx is closed''), w)
              | Some x \<Rightarrow> if tx_aborted x
                  then (Some (PgError ''25P02'' ''current transaction is aborted''), w) else go))"

definition record_dml :: "pgStore \<Rightarrow> dml \<Rightarrow> pg_world \<Rightarrow> pg_world" where
  "record_dml s d w =
     (case tx s of
        None \<Rightarrow> w\<lparr>pool := apply_dml d (pool w)\<rparr>
      | Some t \<Rightarrow>
          (case map_of (open_txs w) t of
             None \<Rightarrow> w
           | Some x \<Rightarrow> w\<lparr>open_txs := AList.update t (x\<lparr>tx_log := tx_log x @ [d]\<rparr>) (open_txs w)\<rparr>))"

definition exec :: "pgStore \<Rightarrow> dml \<Rightarrow> pg_world \<Rightarrow> goerr option \<times> pg_world" where
  "exec s d w = (case stmt s w of (Some e, u) \<Rightarrow> (Some e, u) | (None, u) \<Rightarrow> (None, record_dml s d u))"

text \<open>\<open>query\<close> stands for the read-only statements: the tables it sees, or an error.\<close>

definition query :: "pgStore \<Rightarrow> pg_world \<Rightarrow> (goerr + tables) \<times> pg_world" where
  "query s w = (case stmt s w of (Some e, u) \<Rightarrow> (Inl e, u) | (None, u) \<Rightarrow> (Inr (view s u), u))"

text \<open>
  \<^verbatim>\<open>INSERT INTO queue\<close>: the id comes from the sequence, which moves even when the row is refused
  because its address is taken.
\<close>

definition insert_queue :: "pgStore \<Rightarrow> (int \<Rightarrow> queue_row) \<Rightarrow> pg_world \<Rightarrow> goerr option \<times> pg_world" where
  "insert_queue s mk w =
     (case stmt s w of
        (Some e, u) \<Rightarrow> (Some e, u)
      | (None, u) \<Rightarrow>
          let i = queue_id_seq u + 1; r = mk i; v = u\<lparr>queue_id_seq := i\<rparr> in
          if row_address r \<noteq> None \<and> row_address r \<in> set (map row_address (queue (view s v)))
          then (Some (PgError ''23505'' ''duplicate key value violates unique constraint''),
                abort_tx s v)
          else (None, record_dml s (InsQueue r) v))"

definition applySchema :: "pg_world \<Rightarrow> goerr option \<times> pg_world" where
  "applySchema w =
     (let create = (\<lambda>u. if has_schema u then u else u\<lparr>has_schema := True, pool := empty_tables\<rparr>)
      in case faults w of
           [] \<Rightarrow> (None, create w)
         | None # fs \<Rightarrow> (None, create (w\<lparr>faults := fs\<rparr>))
         | Some e # fs \<Rightarrow> (Some (Errorf ''apply schema: '' e), w\<lparr>faults := fs\<rparr>))"

definition newPgStore :: "bool \<Rightarrow> pgStore" where
  "newPgStore n = \<lparr>tx = None, notifier = n, pendingNotifications = []\<rparr>"

section \<open>Operations of the store\<close>

fun notify_all :: "pendingNote list \<Rightarrow> pg_world \<Rightarrow> pg_world" where
  "notify_all [] w = w"
| "notify_all (n # ns) w = notify_all ns (w\<lparr>notified := notified w @ [(channel n, payload n)]\<rparr>)"

text \<open>\<open>CompleteTransaction\<close>: \<open>errp\<close> is \<open>None\<close> for the nil pointer, \<open>Some e\<close> for a pointer to \<open>e\<close>.\<close>

definition CompleteTransaction ::
    "pgStore \<Rightarrow> goerr option option \<Rightarrow> pg_world \<Rightarrow> goerr option option \<times> pgStore \<times> pg_world" where
  "CompleteTransaction s errp w =
     (case tx s of
        None \<Rightarrow> (errp, s, w)
      | Some t \<Rightarrow>
          if errp \<noteq> None \<and> errp \<noteq> Some None
          then (errp, s\<lparr>tx := None, pendingNotifications := []\<rparr>, rollback_tx t w)
          else (case commit_tx t w of
                  (Some commitErr, u) \<Rightarrow>
                    (if errp \<noteq> None then Some (Some commitErr) else errp,
                     s\<lparr>tx := None, pendingNotifications := []\<rparr>, u)
                | (None, u) \<Rightarrow>
                    (errp, s\<lparr>tx := None, pendingNotifications := []\<rparr>,
                     if notifier s then notify_all (pendingNotifications s) u else u)))"

definition BeginTransactionQueue :: "pgStore \<Rightarrow> pg_world \<Rightarrow> (goerr + pgStore) \<times> pg_world" where
  "BeginTransactionQueue s w =
     (if tx s \<noteq> None
      then (Inl (ErrorsNew ''platlib store: nested transactions not supported''), w)
      else case begin_tx w of
             (Inl e, u) \<Rightarrow> (Inl (Errorf ''begin tx: '' e), u)
           | (Inr t, u) \<Rightarrow> (Inr \<lparr>tx = Some t, notifier = notifier s, pendingNotifications = []\<rparr>, u))"

definition NotifyExtend :: "pgStore \<Rightarrow> uint64 \<Rightarrow> pg_world \<Rightarrow> goerr option \<times> pg_world" where
  "NotifyExtend s p w = (None, w)"

definition queueNotify :: "pgStore \<Rightarrow> string \<Rightarrow> pg_world \<Rightarrow> pgStore \<times> pg_world" where
  "queueNotify s ch w =
     (let note = \<lparr>NotifyType = notifyTypeQueue\<rparr> in
      if tx s \<noteq> None
      then (s\<lparr>pendingNotifications := pendingNotifications s @ [\<lparr>channel = ch, payload = note\<rparr>]\<rparr>, w)
      else if notifier s then (s, w\<lparr>notified := notified w @ [(ch, note)]\<rparr>)
      else (s, w))"

fun first_pg :: "goerr list \<Rightarrow> string option" where
  "first_pg [] = None"
| "first_pg (PgError c m # es) = Some c"
| "first_pg (e # es) = first_pg es"

fun is_prefix :: "string \<Rightarrow> string \<Rightarrow> bool" where
  "is_prefix [] ys = True"
| "is_prefix (x # xs) [] = False"
| "is_prefix (x # xs) (y # ys) = (x = y \<and> is_prefix xs ys)"

fun contains :: "string \<Rightarrow> string \<Rightarrow> bool" where
  "contains [] sub = (sub = [])"
| "contains (c # cs) sub = (is_prefix sub (c # cs) \<or> contains cs sub)"

definition isUniqueViolation :: "goerr option \<Rightarrow> bool" where
  "isUniqueViolation err =
     (case err of
        None \<Rightarrow> False
      | Some e \<Rightarrow> first_pg (err_chain e) = Some ''23505'' \<or> contains (error_text e) ''SQLSTATE 23505'')"

text \<open>
  \<open>QueuePush\<close> and \<open>QueuePushAddressed\<close>: \<open>work\<close> is the outcome of \<^verbatim>\<open>json.Marshal(work)\<close>.
\<close>

definition QueuePush ::
    "pgStore \<Rightarrow> string \<Rightarrow> int option \<Rightarrow> uint64 \<Rightarrow> uint64 \<Rightarrow> goerr + json \<Rightarrow> uint8 list option
     \<Rightarrow> pg_world \<Rightarrow> goerr option \<times> pgStore \<times> pg_world" where
  "QueuePush s name groupID priority workType work carrier w =
     (case work of
        Inl e \<Rightarrow> (Some (Errorf ''marshal work: '' e), s, w)
      | Inr item \<Rightarrow>
          (case insert_queue s (\<lambda>i. \<lparr>row_id = i, row_name = name,
                  row_priority = int64_of_uint64 priority, row_permit = 0, row_item = item,
                  row_group_id = groupID, row_type = int64_of_uint64 workType,
                  row_address = None, row_carrier = carrier\<rparr>) w of
             (Some e, u) \<Rightarrow> (Some (Errorf ''queue push: '' e), s, u)
           | (None, u) \<Rightarrow> (case queueNotify s queueReadyChannel u of (s', v) \<Rightarrow> (None, s', v))))"

definition QueuePushAddressed ::
    "pgStore \<Rightarrow> string \<Rightarrow> int option \<Rightarrow> uint64 \<Rightarrow> uint64 \<Rightarrow> string \<Rightarrow> goerr + json \<Rightarrow> uint8 list option
     \<Rightarrow> pg_world \<Rightarrow> goerr option \<times> pgStore \<times> pg_world" where
  "QueuePushAddressed s name groupID priority workType address work carrier w =
     (case work of
        Inl e \<Rightarrow> (Some (Errorf ''marshal work: '' e), s, w)
      | Inr item \<Rightarrow>
          (case insert_queue s (\<lambda>i. \<lparr>row_id = i, row_name = name,
                  row_priority = int64_of_uint64 priority, row_permit = 0, row_item = item,
                  row_group_id = groupID, row_type = int64_of_uint64 workType,
                  row_address = Some address, row_carrier = carrier\<rparr>) w of
             (Some e, u) \<Rightarrow>
               (if isUniqueViolation (Some e) then Some ErrDuplicateAddressedPush
                else Some (Errorf ''queue push addressed: '' e), s, u)
           | (None, u) \<Rightarrow> (case queueNotify s queueReadyChannel u of (s', v) \<Rightarrow> (None, s', v))))"

subsection \<open>QueuePop\<close>

definition row_before :: "queue_row \<Rightarrow> queue_row \<Rightarrow> bool" where
  "row_before r q \<longleftrightarrow> row_priority r < row_priority q
     \<or> row_priority r = row_priority q \<and> row_id r \<le> row_id q"

text \<open>\<^verbatim>\<open>ORDER BY priority ASC, id ASC LIMIT 1\<close>.\<close>

fun order_limit1 :: "queue_row list \<Rightarrow> queue_row option" where
  "order_limit1 [] = None"
| "order_limit1 (r # rs) =
     (case order_limit1 rs of
        None \<Rightarrow> Some r
      | Some q \<Rightarrow> if row_before r q then Some r else Some q)"

text \<open>The order of the claims as a linear order of the library, so that its sorting applies to the rows.\<close>

datatype claim_key = Claim_key (key_priority: int) (key_id: int)

instantiation claim_key :: linorder
begin

definition less_eq_claim_key :: "claim_key \<Rightarrow> claim_key \<Rightarrow> bool" where
  "a \<le> b \<longleftrightarrow> key_priority a < key_priority b \<or> key_priority a = key_priority b \<and> key_id a \<le> key_id b"

definition less_claim_key :: "claim_key \<Rightarrow> claim_key \<Rightarrow> bool" where
  "a < b \<longleftrightarrow> key_priority a < key_priority b \<or> key_priority a = key_priority b \<and> key_id a < key_id b"

instance
  by standard (auto simp: less_eq_claim_key_def less_claim_key_def claim_key.expand)

end

definition claim_key_of :: "queue_row \<Rightarrow> claim_key" where
  "claim_key_of r = Claim_key (row_priority r) (row_id r)"

text \<open>The \<^verbatim>\<open>WHERE\<close> clause of the precount and of the claim.\<close>

definition claimable :: "string \<Rightarrow> uint64 \<Rightarrow> uint64 list \<Rightarrow> queue_row \<Rightarrow> bool" where
  "claimable name maxPriority types r \<longleftrightarrow>
     row_name r = name \<and> row_priority r \<le> int64_of_uint64 maxPriority \<and> row_permit r = 0
     \<and> row_type r \<in> set (map int64_of_uint64 types)"

definition pop_precount ::
    "pgStore \<Rightarrow> string \<Rightarrow> uint64 \<Rightarrow> uint64 list \<Rightarrow> pg_world \<Rightarrow> (goerr + nat) \<times> pg_world" where
  "pop_precount s name maxPriority types w =
     (case query s w of
        (Inl e, u) \<Rightarrow> (Inl (Errorf ''queue pop precount: '' e), u)
      | (Inr T, u) \<Rightarrow> (Inr (length (filter (claimable name maxPriority types) (queue T))), u))"

text \<open>\<^verbatim>\<open>INSERT INTO queue_permits DEFAULT VALUES RETURNING id\<close>.\<close>

definition pop_permit :: "pgStore \<Rightarrow> pg_world \<Rightarrow> (goerr + int) \<times> pg_world" where
  "pop_permit b w =
     (case stmt b w of
        (Some e, u) \<Rightarrow> (Inl e, u)
      | (None, u) \<Rightarrow>
          let p = permits_id_seq u + 1 in
          (Inr p, record_dml b (InsPermit p) (u\<lparr>permits_id_seq := p\<rparr>)))"

text \<open>\<^verbatim>\<open>UPDATE queue SET permit ... WHERE id = (SELECT ... FOR UPDATE SKIP LOCKED) RETURNING ...\<close>.\<close>

definition pop_claim ::
    "pgStore \<Rightarrow> int \<Rightarrow> string \<Rightarrow> uint64 \<Rightarrow> uint64 list \<Rightarrow> pg_world \<Rightarrow> (goerr + queue_row) \<times> pg_world" where
  "pop_claim b permitID name maxPriority types w =
     (case stmt b w of
        (Some e, u) \<Rightarrow> (Inl e, u)
      | (None, u) \<Rightarrow>
          (case order_limit1 (filter (\<lambda>r. claimable name maxPriority types r
                    \<and> row_id r \<notin> set (locked_rows (tx b) u)) (queue (view b u))) of
             None \<Rightarrow> (Inl ErrNoRows, u)
           | Some r \<Rightarrow> (Inr r, record_dml b (SetPermit (row_id r) permitID) u)))"

definition work_of :: "int \<Rightarrow> queue_row \<Rightarrow> QueueWork" where
  "work_of permitID r =
     \<lparr>Permit = uint64_of_int64 permitID, Address = (case row_address r of None \<Rightarrow> '''' | Some a \<Rightarrow> a),
      WorkType = uint64_of_int64 (row_type r), Work = row_item r,
      Carrier = (case row_carrier r of None \<Rightarrow> [] | Some c \<Rightarrow> c)\<rparr>"

text \<open>The part of \<open>QueuePop\<close> that runs on the transaction \<open>b\<close>.\<close>

definition pop_body ::
    "pgStore \<Rightarrow> string \<Rightarrow> uint64 \<Rightarrow> uint64 list \<Rightarrow> pg_world \<Rightarrow> (goerr + QueueWork) \<times> pg_world" where
  "pop_body b name maxPriority types w =
     (case pop_permit b w of
        (Inl e, u) \<Rightarrow> (Inl (Errorf ''queue pop permit: '' e), u)
      | (Inr permitID, u) \<Rightarrow>
          (case pop_claim b permitID name maxPriority types u of
             (Inl e, v) \<Rightarrow>
               (if errors_is e ErrNoRows
                then (Inl ErrNoRows, snd (exec b (DelPermit permitID) v))
                else (Inl (Errorf ''queue pop claim: '' e), v))
           | (Inr r, v) \<Rightarrow> (Inr (work_of permitID r), v)))"

definition QueuePop ::
    "pgStore \<Rightarrow> string \<Rightarrow> uint64 \<Rightarrow> uint64 list \<Rightarrow> pg_world \<Rightarrow> (goerr + QueueWork) \<times> pg_world" where
  "QueuePop s name maxPriority types w =
     (if types = [] then (Inl ErrNoRows, w)
      else case pop_precount s name maxPriority types w of
        (Inl e, u) \<Rightarrow> (Inl e, u)
      | (Inr cnt, u) \<Rightarrow>
          if cnt = 0 then (Inl ErrNoRows, u)
          else case tx s of
            Some t \<Rightarrow> pop_body s name maxPriority types u
          | None \<Rightarrow>
              (case begin_tx u of
                 (Inl e, v) \<Rightarrow> (Inl (Errorf ''queue pop begin: '' e), v)
               | (Inr t, v) \<Rightarrow>
                   (case pop_body \<lparr>tx = Some t, notifier = notifier s, pendingNotifications = []\<rparr>
                           name maxPriority types v of
                      (Inl finalErr, x) \<Rightarrow> (Inl finalErr, rollback_tx t x)
                    | (Inr work, x) \<Rightarrow> (Inr work, snd (commit_tx t x)))))"

subsection \<open>Deletion, peeking and addressed work\<close>

definition QueueDelete ::
    "pgStore \<Rightarrow> uint64 \<Rightarrow> pg_world \<Rightarrow> goerr option \<times> pgStore \<times> pg_world" where
  "QueueDelete s p w =
     (case exec s (DelQueueByPermit (int64_of_uint64 p)) w of
        (Some e, u) \<Rightarrow> (Some (Errorf ''queue delete row: '' e), s, u)
      | (None, u) \<Rightarrow>
          (case exec s (DelPermit (int64_of_uint64 p)) u of
             (Some e, v) \<Rightarrow> (Some (Errorf ''queue delete permit: '' e), s, v)
           | (None, v) \<Rightarrow> (case queueNotify s queueReadyChannel v of (s', x) \<Rightarrow> (None, s', x))))"

definition QueuePermits :: "pgStore \<Rightarrow> string \<Rightarrow> pg_world \<Rightarrow> (goerr + uint64 list) \<times> pg_world" where
  "QueuePermits s name w = (Inr [], w)"

definition QueuePermitDelete :: "pgStore \<Rightarrow> uint64 \<Rightarrow> pg_world \<Rightarrow> goerr option \<times> pg_world" where
  "QueuePermitDelete s p w = exec s (DelPermit (int64_of_uint64 p)) w"

definition QueuePeek :: "pgStore \<Rightarrow> uint64 list \<Rightarrow> pg_world \<Rightarrow> (goerr + QueueWork list) \<times> pg_world" where
  "QueuePeek s types w =
     (if types = [] then (Inr [], w)
      else case query s w of
        (Inl e, u) \<Rightarrow> (Inl (Errorf ''queue peek: '' e), u)
      | (Inr T, u) \<Rightarrow>
          (Inr (map (\<lambda>r. \<lparr>Permit = 0, Address = (case row_address r of None \<Rightarrow> '''' | Some a \<Rightarrow> a),
                  WorkType = uint64_of_int64 (row_type r), Work = row_item r, Carrier = []\<rparr>)
               (filter (\<lambda>r. row_permit r = 0 \<and> row_type r \<in> set (map int64_of_uint64 types)) (queue T))), u))"

text \<open>
  The text column of \<^verbatim>\<open>queue_failure\<close> holds \<^verbatim>\<open>plqueue.QueueError\<close> values of the platform library in
  JSON; \<open>marshal_qe\<close> and \<open>unmarshal_qe\<close> are that codec (the message, or failure).
\<close>

definition address_rows :: "string \<Rightarrow> tables \<Rightarrow> queue_row list" where
  "address_rows address T = filter (\<lambda>r. row_address r = Some address) (queue T)"

definition count_address :: "pgStore \<Rightarrow> string \<Rightarrow> pg_world \<Rightarrow> (goerr + nat) \<times> pg_world" where
  "count_address s address w =
     (case query s w of
        (Inl e, u) \<Rightarrow> (Inl e, u)
      | (Inr T, u) \<Rightarrow> (Inr (length (address_rows address T)), u))"

definition IsQueueAddressComplete ::
    "(string \<Rightarrow> string option) \<Rightarrow> pgStore \<Rightarrow> string \<Rightarrow> pg_world \<Rightarrow> (bool \<times> goerr option) \<times> pg_world" where
  "IsQueueAddressComplete unmarshal_qe s address w =
     (let rowcheck = (\<lambda>u. case count_address s address u of
          (Inl e, v) \<Rightarrow> ((False, Some (Errorf ''queue is-complete row check: '' e)), v)
        | (Inr cnt, v) \<Rightarrow> ((cnt = 0, None), v))
      in case query s w of
           (Inl e, u) \<Rightarrow>
             if \<not> errors_is e ErrNoRows
             then ((False, Some (Errorf ''queue is-complete failure check: '' e)), u)
             else rowcheck u
         | (Inr T, u) \<Rightarrow>
             (case filter (\<lambda>f. fst f = address) (queue_failure T) of
                [] \<Rightarrow> rowcheck u
              | (a, errText) # fs \<Rightarrow>
                  (case unmarshal_qe errText of
                     Some msg \<Rightarrow> if msg \<noteq> '''' then ((True, Some (QueueError msg)), u)
                                 else ((True, Some (ErrorsNew errText)), u)
                   | None \<Rightarrow> ((True, Some (ErrorsNew errText)), u))))"

definition IsQueueAddressInProgress ::
    "pgStore \<Rightarrow> string \<Rightarrow> pg_world \<Rightarrow> (bool \<times> goerr option) \<times> pg_world" where
  "IsQueueAddressInProgress s address w =
     (case count_address s address w of
        (Inl e, u) \<Rightarrow> ((False, Some (Errorf ''queue in-progress check: '' e)), u)
      | (Inr cnt, u) \<Rightarrow> ((cnt > 0, None), u))"

definition QueueAddressedComplete ::
    "(string \<Rightarrow> goerr + string) \<Rightarrow> pgStore \<Rightarrow> string \<Rightarrow> goerr option \<Rightarrow> pg_world \<Rightarrow> goerr option \<times> pg_world" where
  "QueueAddressedComplete marshal_qe s address failure w =
     (case exec s (DelFailure address) w of
        (Some e, u) \<Rightarrow> (Some (Errorf ''queue addressed-complete clear: '' e), u)
      | (None, u) \<Rightarrow>
          (case failure of
             None \<Rightarrow> (None, u)
           | Some f \<Rightarrow>
               (case marshal_qe (error_text f) of
                  Inl e \<Rightarrow> (Some (Errorf ''queue addressed-complete marshal: '' e), u)
                | Inr raw \<Rightarrow>
                    (case exec s (InsFailure address raw) u of
                       (Some e, v) \<Rightarrow> (Some (Errorf ''queue addressed-complete insert: '' e), v)
                     | (None, v) \<Rightarrow> (None, v)))))"

section \<open>The invariant of the tables\<close>

text \<open>
  Row ids and permits come from the sequences, a non-zero permit and a non-null address belong to
  one row only.
\<close>

definition wf_rows :: "int \<Rightarrow> int \<Rightarrow> queue_row list \<Rightarrow> bool" where
  "wf_rows qs ps rows \<longleftrightarrow>
     distinct (map row_id rows) \<and> (\<forall>r \<in> set rows. 0 < row_id r \<and> row_id r \<le> qs)
     \<and> (\<forall>r \<in> set rows. 0 \<le> row_permit r \<and> row_permit r \<le> ps)
     \<and> inj_on row_permit {r \<in> set rows. row_permit r \<noteq> 0}
     \<and> inj_on row_address {r \<in> set rows. row_address r \<noteq> None}"

definition wf_tables :: "int \<Rightarrow> int \<Rightarrow> tables \<Rightarrow> bool" where
  "wf_tables qs ps T \<longleftrightarrow> wf_rows qs ps (queue T) \<and> distinct (queue_permits T)
     \<and> (\<forall>p \<in> set (queue_permits T). 0 < p \<and> p \<le> ps) \<and> 0 \<le> qs \<and> 0 \<le> ps"

definition store_inv :: "pg_world \<Rightarrow> bool" where
  "store_inv w \<longleftrightarrow> wf_tables (queue_id_seq w) (permits_id_seq w) (pool w)
     \<and> distinct (map fst (open_txs w)) \<and> (\<forall>t \<in> set (map fst (open_txs w)). t < next_tx w)"

definition pop_candidate :: "string \<Rightarrow> uint64 \<Rightarrow> uint64 list \<Rightarrow> pg_world \<Rightarrow> queue_row option" where
  "pop_candidate name mp ts w =
     order_limit1 (filter (\<lambda>r. claimable name mp ts r \<and> row_id r \<notin> set (locked_rows None w)) (queue (pool w)))"

definition claim_tables :: "int \<Rightarrow> int \<Rightarrow> tables \<Rightarrow> tables" where
  "claim_tables i p T = apply_log [InsPermit p, SetPermit i p] T"

text \<open>The statements of an open, healthy transaction of a database without faults.\<close>

definition in_tx :: "pgStore \<Rightarrow> nat \<Rightarrow> dml list \<Rightarrow> pg_world \<Rightarrow> bool" where
  "in_tx b t lg w \<longleftrightarrow> tx b = Some t \<and> map_of (open_txs w) t = Some \<lparr>tx_log = lg, tx_aborted = False\<rparr>
     \<and> faults w = []"

text \<open>
  The worlds that a transaction \<open>t\<close> can lead to before it ends: only its own entry, the permit
  sequence and the fault script move.
\<close>

definition tx_frame :: "nat \<Rightarrow> pg_world \<Rightarrow> pg_world \<Rightarrow> bool" where
  "tx_frame t w u \<longleftrightarrow> pool u = pool w \<and> queue_id_seq u = queue_id_seq w \<and> next_tx u = next_tx w
     \<and> notified u = notified w \<and> permits_id_seq w \<le> permits_id_seq u
     \<and> AList.delete t (open_txs u) = AList.delete t (open_txs w)"

text \<open>
  The outcomes of \<open>QueuePop\<close> on a store outside transactions: either the committed tables are as
  they were, or one row that was free, and that no other transaction holds, now carries the new
  permit; nothing else of the world moves but the sequences and the fault script.
\<close>

definition pop_outcome ::
    "string \<Rightarrow> uint64 \<Rightarrow> uint64 list \<Rightarrow> pg_world \<Rightarrow> goerr + QueueWork \<Rightarrow> pg_world \<Rightarrow> bool" where
  "pop_outcome name mp ts w res u \<longleftrightarrow>
     open_txs u = open_txs w \<and> queue_id_seq u = queue_id_seq w \<and> permits_id_seq w \<le> permits_id_seq u
     \<and> next_tx w \<le> next_tx u \<and> notified u = notified w
     \<and> (case res of
          Inl e \<Rightarrow> pool u = pool w
        | Inr work \<Rightarrow> \<exists>r. pop_candidate name mp ts w = Some r \<and> work = work_of (permits_id_seq w + 1) r
             \<and> permits_id_seq u = permits_id_seq w + 1
             \<and> (pool u = pool w \<or> pool u = claim_tables (row_id r) (permits_id_seq w + 1) (pool w)))"

text \<open>The operations of a store outside transactions, as values, for runs of them.\<close>

datatype store_op =
    OpPush string uint64 uint64 json
  | OpPushAddressed string uint64 uint64 string json
  | OpPop string uint64 "uint64 list"
  | OpDelete uint64
  | OpPermitDelete uint64
  | OpAddressedComplete string "goerr option"

fun run_store_op :: "(string \<Rightarrow> goerr + string) \<Rightarrow> store_op \<Rightarrow> pg_world \<Rightarrow> pg_world" where
  "run_store_op mq (OpPush name pri wt item) w =
     snd (snd (QueuePush (newPgStore True) name None pri wt (Inr item) None w))"
| "run_store_op mq (OpPushAddressed name pri wt a item) w =
     snd (snd (QueuePushAddressed (newPgStore True) name None pri wt a (Inr item) None w))"
| "run_store_op mq (OpPop name mp ts) w = snd (QueuePop (newPgStore True) name mp ts w)"
| "run_store_op mq (OpDelete p) w = snd (snd (QueueDelete (newPgStore True) p w))"
| "run_store_op mq (OpPermitDelete p) w = snd (QueuePermitDelete (newPgStore True) p w)"
| "run_store_op mq (OpAddressedComplete a f) w = snd (QueueAddressedComplete mq (newPgStore True) a f w)"

text \<open>
  \<open>pop_row\<close> observes a pop through its permit: the row of the table that carries the permit the
  caller was given, as it was before the claim.
\<close>

definition pop_row ::
    "string \<Rightarrow> uint64 \<Rightarrow> uint64 list \<Rightarrow> pg_world \<Rightarrow> (queue_row \<times> pg_world) option" where
  "pop_row name mp ts w =
     (case QueuePop (newPgStore True) name mp ts w of
        (Inl e, u) \<Rightarrow> None
      | (Inr work, u) \<Rightarrow>
          (case find (\<lambda>r. row_permit r = int64_of_uint64 (Permit work)) (queue (pool u)) of
             None \<Rightarrow> None
           | Some r \<Rightarrow> Some (r\<lparr>row_permit := 0\<rparr>, u)))"

definition waiting_rows :: "string \<Rightarrow> uint64 \<Rightarrow> uint64 list \<Rightarrow> pg_world \<Rightarrow> queue_row list" where
  "waiting_rows name mp ts w = filter (claimable name mp ts) (queue (pool w))"

text \<open>A quiet database: no open transaction, no faults to come, permits far from the end of \<^verbatim>\<open>BIGINT\<close>.\<close>

definition quiet :: "string \<Rightarrow> uint64 \<Rightarrow> uint64 list \<Rightarrow> pg_world \<Rightarrow> bool" where
  "quiet name mp ts w \<longleftrightarrow> store_inv w \<and> faults w = [] \<and> open_txs w = []
     \<and> permits_id_seq w + int (length (waiting_rows name mp ts w)) < 2 ^ 63"

text \<open>A sequence of pushes through one store view.\<close>

fun push_all :: "pgStore \<Rightarrow> (string \<times> uint64 \<times> uint64 \<times> json) list \<Rightarrow> pg_world \<Rightarrow> goerr option \<times> pgStore \<times> pg_world" where
  "push_all s [] w = (None, s, w)"
| "push_all s ((name, pri, wt, item) # ps) w =
     (case QueuePush s name None pri wt (Inr item) None w of
        (Some e, s', u) \<Rightarrow> (Some e, s', u)
      | (None, s', u) \<Rightarrow> push_all s' ps u)"

definition pushed_row :: "int \<Rightarrow> string \<times> uint64 \<times> uint64 \<times> json \<Rightarrow> queue_row" where
  "pushed_row i = (\<lambda>(name, pri, wt, item). \<lparr>row_id = i, row_name = name,
     row_priority = int64_of_uint64 pri, row_permit = 0, row_item = item, row_group_id = None,
     row_type = int64_of_uint64 wt, row_address = None, row_carrier = None\<rparr>)"

definition ready_note :: pendingNote where
  "ready_note = \<lparr>channel = queueReadyChannel, payload = \<lparr>NotifyType = notifyTypeQueue\<rparr>\<rparr>"

fun pushed_rows :: "int \<Rightarrow> (string \<times> uint64 \<times> uint64 \<times> json) list \<Rightarrow> queue_row list" where
  "pushed_rows i [] = []"
| "pushed_rows i (p # ps) = pushed_row (i + 1) p # pushed_rows (i + 1) ps"

definition sample_row :: "int \<Rightarrow> int \<Rightarrow> string option \<Rightarrow> queue_row" where
  "sample_row i pri a = \<lparr>row_id = i, row_name = benchQueueName, row_priority = pri, row_permit = 0,
     row_item = JNum (of_int i), row_group_id = None, row_type = 7, row_address = a, row_carrier = None\<rparr>"

text \<open>Two waiting rows; the second was inserted later with a better priority.\<close>

definition sample_world :: pg_world where
  "sample_world = \<lparr>has_schema = True,
     pool = \<lparr>queue = [sample_row 1 10 None, sample_row 2 5 (Some ''a'')], queue_permits = [], queue_failure = []\<rparr>,
     queue_id_seq = 2, permits_id_seq = 0, open_txs = [], next_tx = 0, notified = [], faults = []\<rparr>"

end
