(* ===== verification/Pg_Store_Facts.thy ===== *)
theory Pg_Store_Facts
  imports Pg_Store
begin

text \<open>
  What holds of the store of theory \<open>Pg_Store\<close>: equations of its statements outside and inside
  transactions, the outcomes of a pop under any answers of the database, the invariant and its
  preservation by every operation, the interpretation of the claim-queue interface on the store,
  and the properties with their witnesses.
\<close>

section \<open>Facts about the database\<close>

lemma apply_log_simps [simp]:
  "apply_log [] T = T"
  "apply_log (d # ds) T = apply_log ds (apply_dml d T)"
  "apply_log (ds @ es) T = apply_log es (apply_log ds T)"
  by (simp_all add: apply_log_def)

lemma abort_tx_simps [simp]:
  "pool (abort_tx s w) = pool w"
  "faults (abort_tx s w) = faults w"
  "queue_id_seq (abort_tx s w) = queue_id_seq w"
  "permits_id_seq (abort_tx s w) = permits_id_seq w"
  "notified (abort_tx s w) = notified w"
  "next_tx (abort_tx s w) = next_tx w"
  by (simp_all add: abort_tx_def split: option.split)

lemma close_tx_simps [simp]:
  "pool (close_tx t w) = pool w"
  "queue_id_seq (close_tx t w) = queue_id_seq w"
  "permits_id_seq (close_tx t w) = permits_id_seq w"
  "notified (close_tx t w) = notified w"
  by (simp_all add: close_tx_def)

lemma stmt_pool [simp]:
  "pool (snd (stmt s w)) = pool w"
  "queue_id_seq (snd (stmt s w)) = queue_id_seq w"
  "permits_id_seq (snd (stmt s w)) = permits_id_seq w"
  "notified (snd (stmt s w)) = notified w"
  by (auto simp: stmt_def Let_def split: option.split list.split)

lemma record_dml_simps [simp]:
  "queue_id_seq (record_dml s d w) = queue_id_seq w"
  "permits_id_seq (record_dml s d w) = permits_id_seq w"
  "notified (record_dml s d w) = notified w"
  "tx s \<noteq> None \<Longrightarrow> pool (record_dml s d w) = pool w"
  "tx s = None \<Longrightarrow> pool (record_dml s d w) = apply_dml d (pool w)"
  by (auto simp: record_dml_def split: option.splits)

lemma stmt_ok [simp, store_simps]: "tx s = None \<Longrightarrow> faults w = [] \<Longrightarrow> stmt s w = (None, w)"
  by (simp add: stmt_def)

lemma view_plain [simp, store_simps]: "tx s = None \<Longrightarrow> view s w = pool w"
  by (simp add: view_def)

lemma exec_ok [store_simps]:
  "tx s = None \<Longrightarrow> faults w = [] \<Longrightarrow> exec s d w = (None, w\<lparr>pool := apply_dml d (pool w)\<rparr>)"
  by (simp add: exec_def record_dml_def)

lemma query_ok [store_simps]:
  "tx s = None \<Longrightarrow> faults w = [] \<Longrightarrow> query s w = (Inr (pool w), w)"
  by (simp add: query_def)

lemma queueNotify_plain [store_simps]:
  "tx s = None \<Longrightarrow> queueNotify s ch w =
     (s, if notifier s then w\<lparr>notified := notified w @ [(ch, \<lparr>NotifyType = notifyTypeQueue\<rparr>)]\<rparr> else w)"
  by (simp add: queueNotify_def Let_def)

lemma queueNotify_frame [simp]:
  "pool (snd (queueNotify s ch w)) = pool w"
  "queue_id_seq (snd (queueNotify s ch w)) = queue_id_seq w"
  "permits_id_seq (snd (queueNotify s ch w)) = permits_id_seq w"
  "faults (snd (queueNotify s ch w)) = faults w"
  "open_txs (snd (queueNotify s ch w)) = open_txs w"
  "next_tx (snd (queueNotify s ch w)) = next_tx w"
  by (simp_all add: queueNotify_def Let_def)

section \<open>Ordering\<close>

lemma row_before_key: "row_before r q \<longleftrightarrow> claim_key_of r \<le> claim_key_of q"
  by (simp add: row_before_def claim_key_of_def less_eq_claim_key_def)

lemma row_before_refl [simp]: "row_before r r"
  by (simp add: row_before_key)

lemma row_before_trans: "row_before a b \<Longrightarrow> row_before b c \<Longrightarrow> row_before a c"
  by (simp add: row_before_key)

lemma row_before_total: "row_before a b \<or> row_before b a"
  by (simp add: row_before_key linear)

lemma order_limit1_None [simp]: "order_limit1 rs = None \<longleftrightarrow> rs = []"
  by (cases rs) (auto split: option.splits)

lemma order_limit1_Some:
  "order_limit1 rs = Some r \<Longrightarrow> r \<in> set rs \<and> (\<forall>q \<in> set rs. row_before r q)"
proof (induction rs arbitrary: r)
  case Nil
  then show ?case by simp
next
  case (Cons a rs)
  show ?case
  proof (cases "order_limit1 rs")
    case None
    with Cons.prems show ?thesis by simp
  next
    case (Some q)
    note q = Cons.IH [OF Some]
    show ?thesis
    proof (cases "row_before a q")
      case True
      with Cons.prems Some q show ?thesis by (auto intro: row_before_trans)
    next
      case False
      with Cons.prems Some have "r = q" by simp
      with False q row_before_total [of a q] show ?thesis by auto
    qed
  qed
qed

lemma sorted_wrt_row_before: "sorted_wrt row_before rs \<longleftrightarrow> sorted (map claim_key_of rs)"
  by (induction rs) (auto simp: row_before_key)

lemma claim_order_unique:
  assumes "inj_on row_id (set rs)" and "mset qs = mset rs" and "sorted_wrt row_before qs"
  shows "qs = sort_key claim_key_of rs"
proof (rule properties_for_sort_key [symmetric])
  have set: "set qs = set rs" using assms(2) by (rule mset_eq_setD)
  have one: "filter (\<lambda>q. claim_key_of r = claim_key_of q) xs = filter (HOL.eq r) xs" if "r \<in> set rs" "set xs = set rs" for r xs
    using assms(1) that by (intro filter_cong) (auto simp: claim_key_of_def dest: inj_onD)
  show "filter (\<lambda>q. claim_key_of r = claim_key_of q) qs = filter (\<lambda>q. claim_key_of r = claim_key_of q) rs"
    if "r \<in> set qs" for r
    using that set assms(2) by (simp add: one flip: replicate_count_mset_eq_filter_eq)
qed (use assms sorted_wrt_row_before in auto)

section \<open>Preservation of the invariant\<close>

lemma wf_rows_id_inj: "wf_rows qs ps rows \<Longrightarrow> r \<in> set rows \<Longrightarrow> q \<in> set rows \<Longrightarrow> row_id r = row_id q \<Longrightarrow> r = q"
  by (auto simp: wf_rows_def distinct_map dest: inj_onD)

lemma wf_rows_append:
  assumes wf: "wf_rows qs ps rows" and r: "row_id r = qs + 1" "row_permit r = 0" and "0 \<le> qs" "0 \<le> ps"
    and fresh: "row_address r \<noteq> None \<Longrightarrow> row_address r \<notin> set (map row_address rows)"
  shows "wf_rows (qs + 1) ps (rows @ [r])"
proof -
  have "inj_on row_permit {q \<in> set (rows @ [r]). row_permit q \<noteq> 0}"
    using wf r unfolding wf_rows_def by (auto intro: inj_on_subset)
  moreover have "inj_on row_address {q \<in> set (rows @ [r]). row_address q \<noteq> None}"
    using wf fresh unfolding wf_rows_def inj_on_def by (auto, metis imageI)
  moreover have "\<forall>q \<in> set rows. row_id q \<noteq> qs + 1"
    using wf unfolding wf_rows_def by fastforce
  ultimately show ?thesis
    using wf r assms(4,5) unfolding wf_rows_def by auto
qed

lemma wf_rows_filter: "wf_rows qs ps rows \<Longrightarrow> wf_rows qs ps (filter P rows)"
  unfolding wf_rows_def by (auto simp: distinct_map_filter intro: inj_on_subset)

lemma wf_rows_mono: "wf_rows qs ps rows \<Longrightarrow> qs \<le> qs' \<Longrightarrow> ps \<le> ps' \<Longrightarrow> wf_rows qs' ps' rows"
  unfolding wf_rows_def by fastforce

lemma set_permit_simps [simp]:
  "row_id (set_permit i p r) = row_id r" "row_address (set_permit i p r) = row_address r"
  "row_name (set_permit i p r) = row_name r" "row_priority (set_permit i p r) = row_priority r"
  "row_type (set_permit i p r) = row_type r"
  "row_permit (set_permit i p r) = (if row_id r = i then p else row_permit r)"
  by (simp_all add: set_permit_def)

lemma map_row_id_set_permit [simp]: "map row_id (map (set_permit i p) rows) = map row_id rows"
  by (simp add: comp_def)

lemma wf_rows_set_permit:
  assumes wf: "wf_rows qs ps rows" and p: "0 < p" "p \<le> ps'" "ps \<le> ps'" "p \<notin> row_permit ` set rows"
  shows "wf_rows qs ps' (map (set_permit i p) rows)"
proof -
  have inj: "inj_on row_permit {q \<in> set (map (set_permit i p) rows). row_permit q \<noteq> 0}"
  proof (rule inj_onI)
    fix a b
    assume ab: "a \<in> {q \<in> set (map (set_permit i p) rows). row_permit q \<noteq> 0}"
      "b \<in> {q \<in> set (map (set_permit i p) rows). row_permit q \<noteq> 0}" "row_permit a = row_permit b"
    then obtain r q where rq: "r \<in> set rows" "q \<in> set rows"
      and a: "a = set_permit i p r" and b: "b = set_permit i p q" by auto
    from ab a b have
        eq: "(if row_id r = i then p else row_permit r) = (if row_id q = i then p else row_permit q)"
      and nz: "row_id r \<noteq> i \<longrightarrow> row_permit r \<noteq> 0" "row_id q \<noteq> i \<longrightarrow> row_permit q \<noteq> 0"
      by auto
    have "row_permit r \<noteq> p" "row_permit q \<noteq> p"
      using p(4) rq by auto
    with eq have "row_id r = i \<longleftrightarrow> row_id q = i" by (auto split: if_splits)
    then have "r = q"
      using eq nz wf rq wf_rows_id_inj [OF wf rq]
      unfolding wf_rows_def by (auto dest: inj_onD split: if_splits)
    with a b show "a = b" by simp
  qed
  have adr: "inj_on row_address {q \<in> set (map (set_permit i p) rows). row_address q \<noteq> None}"
    using wf unfolding wf_rows_def inj_on_def by fastforce
  have ids: "distinct (map row_id (map (set_permit i p) rows))"
    using wf unfolding map_row_id_set_permit by (simp add: wf_rows_def)
  show ?thesis
    using wf inj adr ids p(1-3) unfolding wf_rows_def by fastforce
qed

lemma wf_rows_claim:
  assumes wf: "wf_rows qs ps rows" and "0 \<le> ps"
  shows "wf_rows qs (ps + 1) (map (set_permit i (ps + 1)) rows)"
  by (rule wf_rows_set_permit [OF wf]) (use assms in \<open>auto simp: wf_rows_def\<close>)

lemma update_fresh: "k \<notin> fst ` set al \<Longrightarrow> AList.update k v al = al @ [(k, v)]"
  by (induction al) auto

lemma delete_update_fresh: "k \<notin> fst ` set al \<Longrightarrow> AList.delete k (AList.update k v al) = al"
  by (simp add: delete_update_same delete_id)

lemma locked_rows_cong:
  "pool u = pool w \<Longrightarrow> open_txs u = open_txs w \<Longrightarrow> locked_rows me u = locked_rows me w"
  by (simp add: locked_rows_def cong: if_cong)

lemma locked_rows_own:
  assumes "t \<notin> fst ` set (open_txs w)" and "pool u = pool w" and "open_txs u = AList.update t x (open_txs w)"
  shows "locked_rows (Some t) u = locked_rows None w"
proof -
  have "concat (map (\<lambda>(v, x). if Some v = Some t then [] else concat (map (\<lambda>d. touched d (pool w)) (tx_log x))) (open_txs w))
      = concat (map (\<lambda>(v, x). if Some v = None then [] else concat (map (\<lambda>d. touched d (pool w)) (tx_log x))) (open_txs w))"
    using assms(1) by (intro arg_cong [where f = concat] map_cong) force+
  then show ?thesis
    unfolding locked_rows_def assms(2,3) update_fresh [OF assms(1)] map_append concat_append by simp
qed

lemma apply_dml_queue_simps [simp]:
  "queue (apply_dml (InsPermit p) T) = queue T"
  "queue (apply_dml (DelPermit p) T) = queue T"
  "queue_permits (apply_dml (SetPermit i p) T) = queue_permits T"
  by simp_all

lemma in_tx_stmt: "in_tx b t lg w \<Longrightarrow> stmt b w = (None, w)"
  by (simp add: in_tx_def stmt_def)

lemma in_tx_view: "in_tx b t lg w \<Longrightarrow> view b w = apply_log lg (pool w)"
  by (simp add: in_tx_def view_def)

lemma in_tx_record: "in_tx b t lg w \<Longrightarrow>
    record_dml b d w = w\<lparr>open_txs := AList.update t \<lparr>tx_log = lg @ [d], tx_aborted = False\<rparr> (open_txs w)\<rparr>"
  by (simp add: in_tx_def record_dml_def)

lemma in_tx_update: "in_tx b t lg w \<Longrightarrow> open_txs u = AList.update t \<lparr>tx_log = lg', tx_aborted = False\<rparr> al \<Longrightarrow>
    faults u = [] \<Longrightarrow> in_tx b t lg' u"
  by (simp add: in_tx_def update_conv')

lemma in_tx_frame: "in_tx b t lg w \<Longrightarrow> open_txs u = open_txs w \<Longrightarrow> faults u = faults w \<Longrightarrow> in_tx b t lg u"
  by (simp add: in_tx_def)

lemma begin_tx_ok: "faults w = [] \<Longrightarrow> begin_tx w = (Inr (next_tx w),
    w\<lparr>open_txs := AList.update (next_tx w) \<lparr>tx_log = [], tx_aborted = False\<rparr> (open_txs w), next_tx := Suc (next_tx w)\<rparr>)"
  by (simp add: begin_tx_def)

lemma pop_permit_tx:
  assumes "in_tx b t lg w"
  shows "pop_permit b w = (Inr (permits_id_seq w + 1),
    w\<lparr>permits_id_seq := permits_id_seq w + 1,
      open_txs := AList.update t \<lparr>tx_log = lg @ [InsPermit (permits_id_seq w + 1)], tx_aborted = False\<rparr> (open_txs w)\<rparr>)"
  using in_tx_record [OF in_tx_frame [OF assms, of "w\<lparr>permits_id_seq := permits_id_seq w + 1\<rparr>"]]
  by (simp add: pop_permit_def in_tx_stmt [OF assms] Let_def)

lemma pop_claim_tx:
  assumes "in_tx b t [InsPermit p] w"
  shows "pop_claim b p name mp ts w =
    (case order_limit1 (filter (\<lambda>r. claimable name mp ts r \<and> row_id r \<notin> set (locked_rows (Some t) w)) (queue (pool w))) of
       None \<Rightarrow> (Inl ErrNoRows, w)
     | Some r \<Rightarrow> (Inr r, w\<lparr>open_txs :=
         AList.update t \<lparr>tx_log = [InsPermit p, SetPermit (row_id r) p], tx_aborted = False\<rparr> (open_txs w)\<rparr>))"
proof -
  have "tx b = Some t" using assms by (simp add: in_tx_def)
  then show ?thesis
    by (simp add: pop_claim_def in_tx_stmt [OF assms] in_tx_view [OF assms] in_tx_record [OF assms]
        split: option.split)
qed

lemma commit_tx_ok:
  assumes "in_tx b t lg w"
  shows "commit_tx t w = (None, w\<lparr>pool := apply_log lg (pool w), open_txs := AList.delete t (open_txs w)\<rparr>)"
  using assms by (simp add: commit_tx_def in_tx_def Let_def close_tx_def)

lemma pop_body_tx:
  assumes "in_tx b t [] w"
  shows "pop_body b name mp ts w =
    (let p = permits_id_seq w + 1; up = (\<lambda>lg. w\<lparr>permits_id_seq := p,
         open_txs := AList.update t \<lparr>tx_log = lg, tx_aborted = False\<rparr> (open_txs w)\<rparr>)
     in case order_limit1 (filter (\<lambda>r. claimable name mp ts r \<and> row_id r \<notin> set (locked_rows (Some t) (up [InsPermit p])))
              (queue (pool w))) of
          None \<Rightarrow> (Inl ErrNoRows, up [InsPermit p, DelPermit p])
        | Some r \<Rightarrow> (Inr (work_of p r), up [InsPermit p, SetPermit (row_id r) p]))"
proof -
  let ?p = "permits_id_seq w + 1"
  let ?u = "w\<lparr>permits_id_seq := ?p, open_txs := AList.update t \<lparr>tx_log = [InsPermit ?p], tx_aborted = False\<rparr> (open_txs w)\<rparr>"
  have u: "in_tx b t [InsPermit ?p] ?u"
    using assms by (rule in_tx_update) (use assms in \<open>simp_all add: in_tx_def\<close>)
  show ?thesis
    using pop_permit_tx [OF assms]
    by (simp add: pop_body_def pop_claim_tx [OF u] exec_def in_tx_stmt [OF u] in_tx_record [OF u] Let_def
        split: option.split)
qed

lemma QueuePop_ok:
  assumes "tx s = None" and "faults w = []" and "types \<noteq> []" and fresh: "next_tx w \<notin> fst ` set (open_txs w)"
  shows "QueuePop s name mp types w =
    (if filter (claimable name mp types) (queue (pool w)) = [] then (Inl ErrNoRows, w)
     else case pop_candidate name mp types w of
       None \<Rightarrow> (Inl ErrNoRows, w\<lparr>permits_id_seq := permits_id_seq w + 1, next_tx := Suc (next_tx w)\<rparr>)
     | Some r \<Rightarrow> (Inr (work_of (permits_id_seq w + 1) r),
         w\<lparr>pool := claim_tables (row_id r) (permits_id_seq w + 1) (pool w),
           permits_id_seq := permits_id_seq w + 1, next_tx := Suc (next_tx w)\<rparr>))"
proof -
  let ?t = "next_tx w" and ?p = "permits_id_seq w + 1"
  let ?b = "\<lparr>tx = Some ?t, notifier = notifier s, pendingNotifications = []\<rparr>"
  define u where "u = w\<lparr>open_txs := AList.update ?t \<lparr>tx_log = [], tx_aborted = False\<rparr> (open_txs w), next_tx := Suc ?t\<rparr>"
  define up where "up = (\<lambda>lg. u\<lparr>permits_id_seq := ?p,
      open_txs := AList.update ?t \<lparr>tx_log = lg, tx_aborted = False\<rparr> (open_txs u)\<rparr>)"
  have b: "begin_tx w = (Inr ?t, u)"
    using begin_tx_ok [OF assms(2)] by (simp add: u_def)
  have inu: "in_tx ?b ?t [] u"
    using assms(2) by (simp add: in_tx_def u_def update_conv')
  have lk: "locked_rows (Some ?t) (up lg) = locked_rows None w" for lg
    by (rule locked_rows_own [OF fresh]) (simp_all add: up_def u_def)
  have del: "AList.delete ?t (open_txs (up lg)) = open_txs w" for lg
    using delete_update_fresh [OF fresh] by (simp add: up_def u_def)
  have rb: "rollback_tx ?t (up lg) = w\<lparr>permits_id_seq := ?p, next_tx := Suc ?t\<rparr>" for lg
    unfolding rollback_tx_def close_tx_def del by (simp add: up_def u_def)
  have inup: "in_tx ?b ?t lg (up lg)" for lg
    using assms(2) by (simp add: in_tx_def up_def u_def update_conv')
  have cm: "snd (commit_tx ?t (up [InsPermit ?p, SetPermit i ?p])) =
      w\<lparr>pool := claim_tables i ?p (pool w), permits_id_seq := ?p, next_tx := Suc ?t\<rparr>" for i
    unfolding commit_tx_ok [OF inup] del by (simp add: up_def u_def claim_tables_def)
  have body: "pop_body ?b name mp types u = (case pop_candidate name mp types w of
       None \<Rightarrow> (Inl ErrNoRows, up [InsPermit ?p, DelPermit ?p])
     | Some r \<Rightarrow> (Inr (work_of ?p r), up [InsPermit ?p, SetPermit (row_id r) ?p]))"
    using pop_body_tx [OF inu, of name mp types] lk
    by (simp add: Let_def up_def u_def pop_candidate_def split: option.split)
  show ?thesis
    using assms(1-3)
    by (simp add: QueuePop_def pop_precount_def query_ok b body rb cm split: option.split)
qed

lemma claim_tables_simps [simp]:
  "queue (claim_tables i p T) = map (set_permit i p) (queue T)"
  "queue_permits (claim_tables i p T) = queue_permits T @ [p]"
  "queue_failure (claim_tables i p T) = queue_failure T"
  by (simp_all add: claim_tables_def)

lemma pop_candidate_Some:
  assumes "pop_candidate name mp ts w = Some r"
  shows "r \<in> set (queue (pool w))" and "claimable name mp ts r" and "row_id r \<notin> set (locked_rows None w)"
    and "q \<in> set (queue (pool w)) \<Longrightarrow> claimable name mp ts q \<Longrightarrow> row_id q \<notin> set (locked_rows None w) \<Longrightarrow> row_before r q"
  using order_limit1_Some [OF assms [unfolded pop_candidate_def]] by auto

lemma pop_candidate_None:
  "pop_candidate name mp ts w = None \<longleftrightarrow>
     (\<forall>r \<in> set (queue (pool w)). claimable name mp ts r \<longrightarrow> row_id r \<in> set (locked_rows None w))"
  by (auto simp: pop_candidate_def filter_empty_conv)

lemma store_inv_fresh: "store_inv w \<Longrightarrow> next_tx w \<notin> fst ` set (open_txs w)"
  by (auto simp: store_inv_def)

lemma wf_tables_claim:
  "wf_tables qs ps T \<Longrightarrow> wf_tables qs (ps + 1) (claim_tables i (ps + 1) T)"
  by (fastforce simp: wf_tables_def wf_rows_claim)

lemma wf_tables_mono: "wf_tables qs ps T \<Longrightarrow> qs \<le> qs' \<Longrightarrow> ps \<le> ps' \<Longrightarrow> wf_tables qs' ps' T"
  by (fastforce simp: wf_tables_def intro: wf_rows_mono)

lemma store_inv_frame:
  assumes "store_inv w" and "pool u = pool w" and "queue_id_seq u = queue_id_seq w" and "permits_id_seq u = permits_id_seq w"
    and "open_txs u = open_txs w" and "next_tx u = next_tx w"
  shows "store_inv u"
  using assms by (simp add: store_inv_def)

section \<open>What an operation can do to the world, whatever the database answers\<close>

lemma tx_frame_refl [simp]: "tx_frame t w w"
  by (simp add: tx_frame_def)

lemma tx_frame_trans [trans]: "tx_frame t w u \<Longrightarrow> tx_frame t u v \<Longrightarrow> tx_frame t w v"
  by (simp add: tx_frame_def)

lemma tx_frame_faults [simp]: "tx_frame t w (u\<lparr>faults := fs\<rparr>) = tx_frame t w u"
  by (simp add: tx_frame_def)

lemma tx_frame_abort: "tx b = Some t \<Longrightarrow> tx_frame t w (abort_tx b w)"
  by (simp add: tx_frame_def abort_tx_def delete_update_same)

lemma tx_frame_stmt: "tx b = Some t \<Longrightarrow> tx_frame t w (snd (stmt b w))"
  using tx_frame_abort [of b t "w\<lparr>faults := fs\<rparr>" for fs]
  by (auto simp: stmt_def Let_def tx_frame_def split: option.splits list.splits)

lemma tx_frame_record: "tx b = Some t \<Longrightarrow> tx_frame t w (record_dml b d w)"
  by (auto simp: tx_frame_def record_dml_def delete_update_same split: option.splits)

lemma tx_frame_exec: "tx b = Some t \<Longrightarrow> tx_frame t w (snd (exec b d w))"
  using tx_frame_stmt [of b t w] tx_frame_record [of b t "snd (stmt b w)" d]
  by (auto simp: exec_def intro: tx_frame_trans split: prod.splits option.splits)

lemma stmt_None_world: "stmt b w = (None, u) \<Longrightarrow> \<exists>fs. u = w\<lparr>faults := fs\<rparr>"
proof -
  have "\<exists>fs. w = w\<lparr>faults := fs\<rparr>" by (rule exI [of _ "faults w"]) simp
  then show "stmt b w = (None, u) \<Longrightarrow> ?thesis"
    by (auto simp: stmt_def Let_def split: option.splits list.splits if_splits)
qed

lemma stmt_None_tx:
  "stmt b w = (None, u) \<Longrightarrow> tx b = Some t \<Longrightarrow> \<exists>x. map_of (open_txs w) t = Some x \<and> \<not> tx_aborted x"
  by (auto simp: stmt_def Let_def split: option.splits list.splits if_splits)

lemma pop_permit_Inr:
  assumes "pop_permit b w = (Inr p, u)" and "tx b = Some t"
    and "map_of (open_txs w) t = Some \<lparr>tx_log = [], tx_aborted = False\<rparr>"
  shows "p = permits_id_seq w + 1" and "permits_id_seq u = p" and "tx_frame t w u"
    and "map_of (open_txs u) t = Some \<lparr>tx_log = [InsPermit p], tx_aborted = False\<rparr>"
proof -
  obtain v where v: "stmt b w = (None, v)" and pu: "p = permits_id_seq v + 1"
      "u = record_dml b (InsPermit p) (v\<lparr>permits_id_seq := p\<rparr>)"
    using assms(1) by (auto simp: pop_permit_def Let_def split: prod.splits option.splits)
  from stmt_None_world [OF v] obtain fs where "v = w\<lparr>faults := fs\<rparr>" ..
  with pu assms(2,3) show "p = permits_id_seq w + 1" "permits_id_seq u = p" "tx_frame t w u"
    "map_of (open_txs u) t = Some \<lparr>tx_log = [InsPermit p], tx_aborted = False\<rparr>"
    by (auto simp: record_dml_def update_conv' tx_frame_def delete_update_same)
qed

lemma pop_claim_Inr:
  assumes "pop_claim b p name mp ts w = (Inr r, u)" and "tx b = Some t"
    and "map_of (open_txs w) t = Some \<lparr>tx_log = [InsPermit p], tx_aborted = False\<rparr>"
  shows "map_of (open_txs u) t = Some \<lparr>tx_log = [InsPermit p, SetPermit (row_id r) p], tx_aborted = False\<rparr>"
    and "permits_id_seq u = permits_id_seq w" and "tx_frame t w u"
    and "order_limit1 (filter (\<lambda>r. claimable name mp ts r \<and> row_id r \<notin> set (locked_rows (Some t) w)) (queue (pool w))) = Some r"
proof -
  obtain v where v: "stmt b w = (None, v)"
    using assms(1) by (auto simp: pop_claim_def split: prod.splits option.splits)
  from stmt_None_world [OF v] obtain fs where fs: "v = w\<lparr>faults := fs\<rparr>" ..
  have lk: "locked_rows (Some t) v = locked_rows (Some t) w"
    using fs by (intro locked_rows_cong) simp_all
  have vw: "queue (view b v) = queue (pool w)"
    using assms(2,3) fs by (simp add: view_def)
  show "order_limit1 (filter (\<lambda>r. claimable name mp ts r \<and> row_id r \<notin> set (locked_rows (Some t) w)) (queue (pool w))) = Some r"
    and "map_of (open_txs u) t = Some \<lparr>tx_log = [InsPermit p, SetPermit (row_id r) p], tx_aborted = False\<rparr>"
    and "permits_id_seq u = permits_id_seq w" and "tx_frame t w u"
    using assms v vw lk fs
    by (auto simp: pop_claim_def record_dml_def update_conv' tx_frame_def delete_update_same split: option.splits)
qed

lemma pop_permit_frame: "tx b = Some t \<Longrightarrow> tx_frame t w (snd (pop_permit b w))"
proof -
  assume b: "tx b = Some t"
  have "tx_frame t v (record_dml b d (v\<lparr>permits_id_seq := permits_id_seq v + 1\<rparr>))" for v d
    by (rule tx_frame_trans [OF _ tx_frame_record [OF b]]) (simp add: tx_frame_def)
  with tx_frame_stmt [OF b, of w] show ?thesis
    by (auto simp: pop_permit_def Let_def intro: tx_frame_trans split: prod.splits option.splits)
qed

lemma pop_claim_frame: "tx b = Some t \<Longrightarrow> tx_frame t w (snd (pop_claim b p name mp ts w))"
  using tx_frame_stmt [of b t w]
  by (auto simp: pop_claim_def intro: tx_frame_trans tx_frame_record split: prod.splits option.splits)

lemma pop_body_frame: "tx b = Some t \<Longrightarrow> tx_frame t w (snd (pop_body b name mp ts w))"
proof -
  assume b: "tx b = Some t"
  obtain pr u where u: "pop_permit b w = (pr, u)" by fastforce
  have wu: "tx_frame t w u" using pop_permit_frame [OF b, of w] u by simp
  show ?thesis
  proof (cases pr)
    case (Inl e)
    with u wu show ?thesis by (simp add: pop_body_def)
  next
    case (Inr p)
    obtain cr v where v: "pop_claim b p name mp ts u = (cr, v)" by fastforce
    have wv: "tx_frame t w v" using tx_frame_trans [OF wu] pop_claim_frame [OF b, of u p name mp ts] v by simp
    show ?thesis
      using u Inr v wv tx_frame_trans [OF wv tx_frame_exec [OF b]]
      by (auto simp: pop_body_def split: sum.split)
  qed
qed

lemma pop_body_Inr:
  assumes "pop_body b name mp ts w = (Inr work, u)" and "tx b = Some t"
    and "map_of (open_txs w) t = Some \<lparr>tx_log = [], tx_aborted = False\<rparr>"
  shows "\<exists>r. work = work_of (permits_id_seq w + 1) r \<and> permits_id_seq u = permits_id_seq w + 1
    \<and> map_of (open_txs u) t = Some \<lparr>tx_log = [InsPermit (permits_id_seq w + 1),
          SetPermit (row_id r) (permits_id_seq w + 1)], tx_aborted = False\<rparr>
    \<and> order_limit1 (filter (\<lambda>r. claimable name mp ts r \<and> row_id r \<notin> set (locked_rows (Some t) w)) (queue (pool w))) = Some r"
proof -
  obtain p v r where p: "pop_permit b w = (Inr p, v)" and c: "pop_claim b p name mp ts v = (Inr r, u)"
      and work: "work = work_of p r"
    using assms(1) by (auto simp: pop_body_def split: prod.splits sum.splits if_splits)
  note P = pop_permit_Inr [OF p assms(2,3)]
  note C = pop_claim_Inr [OF c assms(2) P(4)]
  have "set (locked_rows (Some t) v) = set (locked_rows (Some t) w)"
  proof -
    have "concat (map (\<lambda>(s, x). if Some s = Some t then [] else concat (map (\<lambda>d. touched d T) (tx_log x))) al)
      = concat (map (\<lambda>(s, x). if Some s = Some t then [] else concat (map (\<lambda>d. touched d T) (tx_log x))) (AList.delete t al))" for T al
      by (induction al) auto
    then have lk: "locked_rows (Some t) z = locked_rows (Some t) (z\<lparr>open_txs := AList.delete t (open_txs z)\<rparr>)" for z
      by (simp add: locked_rows_def cong: if_cong)
    show ?thesis
      using P(3) unfolding lk [of v] lk [of w]
      by (intro arg_cong [where f = set] locked_rows_cong) (simp_all add: tx_frame_def)
  qed
  with C P work show ?thesis by (auto simp: tx_frame_def)
qed

lemma commit_tx_world:
  "queue_id_seq (snd (commit_tx t w)) = queue_id_seq w \<and> permits_id_seq (snd (commit_tx t w)) = permits_id_seq w
   \<and> next_tx (snd (commit_tx t w)) = next_tx w \<and> notified (snd (commit_tx t w)) = notified w"
  by (auto simp: commit_tx_def Let_def close_tx_def split: option.splits list.splits)

lemma commit_tx_open: "AList.delete t (open_txs (snd (commit_tx t w))) = AList.delete t (open_txs w)"
  by (auto simp: commit_tx_def Let_def close_tx_def delete_idem split: option.splits list.splits)

lemma commit_tx_closes: "map_of (open_txs w) t = Some x \<Longrightarrow> open_txs (snd (commit_tx t w)) = AList.delete t (open_txs w)"
  by (auto simp: commit_tx_def Let_def close_tx_def split: option.splits list.splits)

lemma commit_tx_pool:
  assumes "map_of (open_txs w) t = Some \<lparr>tx_log = lg, tx_aborted = False\<rparr>"
  shows "pool (snd (commit_tx t w)) = (if fst (commit_tx t w) = None then apply_log lg (pool w) else pool w)"
  using assms by (auto simp: commit_tx_def Let_def split: option.splits list.splits)

lemma begin_tx_world:
  assumes "begin_tx w = (res, u)"
  shows "case res of
        Inl e \<Rightarrow> \<exists>fs. u = w\<lparr>faults := fs\<rparr>
      | Inr t \<Rightarrow> t = next_tx w \<and> u = w\<lparr>faults := faults u, next_tx := Suc (next_tx w),
            open_txs := AList.update t \<lparr>tx_log = [], tx_aborted = False\<rparr> (open_txs w)\<rparr>"
  using assms by (auto simp: begin_tx_def Let_def split: option.splits list.splits)

lemma query_world: "tx s = None \<Longrightarrow> query s w = (res, u) \<Longrightarrow>
    (\<exists>fs. u = w\<lparr>faults := fs\<rparr>) \<and> (\<forall>T. res = Inr T \<longrightarrow> T = pool w)"
proof -
  have "w = w\<lparr>faults := faults w\<rparr>" by simp
  then have "\<exists>fs. w = w\<lparr>faults := fs\<rparr>" ..
  then show "tx s = None \<Longrightarrow> query s w = (res, u) \<Longrightarrow> ?thesis"
    by (auto simp: query_def stmt_def view_def abort_tx_def split: option.splits list.splits)
qed

lemma pop_candidate_cong:
  "pool u = pool w \<Longrightarrow> locked_rows me u = locked_rows None w \<Longrightarrow>
   order_limit1 (filter (\<lambda>r. claimable name mp ts r \<and> row_id r \<notin> set (locked_rows me u)) (queue (pool u)))
     = pop_candidate name mp ts w"
  by (simp add: pop_candidate_def)

lemma QueuePop_tx_outcome:
  assumes plain: "tx s = None" and fresh: "next_tx w \<notin> fst ` set (open_txs w)"
    and b: "b = \<lparr>tx = Some (next_tx w), notifier = notifier s, pendingNotifications = []\<rparr>"
    and v: "v = w\<lparr>faults := fs, next_tx := Suc (next_tx w),
        open_txs := AList.update (next_tx w) \<lparr>tx_log = [], tx_aborted = False\<rparr> (open_txs w)\<rparr>"
    and body: "pop_body b name mp ts v = (res, x)"
  shows "pop_outcome name mp ts w res (case res of Inl e \<Rightarrow> rollback_tx (next_tx w) x | Inr work \<Rightarrow> snd (commit_tx (next_tx w) x))"
proof -
  let ?t = "next_tx w"
  have tb: "tx b = Some ?t" by (simp add: b)
  have fr: "tx_frame ?t v x" using pop_body_frame [OF tb, of v name mp ts] body by simp
  have del: "AList.delete ?t (open_txs x) = open_txs w"
    using fr delete_update_fresh [OF fresh] by (simp add: tx_frame_def v)
  show ?thesis
  proof (cases res)
    case (Inl e)
    with fr del show ?thesis
      by (simp add: pop_outcome_def rollback_tx_def close_tx_def tx_frame_def v)
  next
    case (Inr work)
    have m: "map_of (open_txs v) ?t = Some \<lparr>tx_log = [], tx_aborted = False\<rparr>" by (simp add: v update_conv')
    have lk: "locked_rows (Some ?t) v = locked_rows None w"
      by (rule locked_rows_own [OF fresh]) (simp_all add: v)
    from pop_body_Inr [OF body [unfolded Inr] tb m] obtain r where
      r: "work = work_of (permits_id_seq w + 1) r" "permits_id_seq x = permits_id_seq w + 1"
        "map_of (open_txs x) ?t = Some \<lparr>tx_log = [InsPermit (permits_id_seq w + 1),
          SetPermit (row_id r) (permits_id_seq w + 1)], tx_aborted = False\<rparr>"
        "pop_candidate name mp ts w = Some r"
      using pop_candidate_cong [of v w "Some ?t" name mp ts, OF _ lk] by (auto simp: v)
    have px: "pool x = pool w" using fr by (simp add: tx_frame_def v)
    show ?thesis
      using r Inr fr del commit_tx_world [of ?t x] commit_tx_closes [OF r(3)] commit_tx_pool [OF r(3)] px
      by (auto simp: pop_outcome_def tx_frame_def v claim_tables_def)
  qed
qed

lemma pop_outcome_error [intro]:
  "u = w\<lparr>faults := fs\<rparr> \<Longrightarrow> pop_outcome name mp ts w (Inl e) u"
  by (simp add: pop_outcome_def)

lemma pop_outcome_faults: "pop_outcome name mp ts (w\<lparr>faults := fs\<rparr>) res u = pop_outcome name mp ts w res u"
proof -
  have "pop_candidate name mp ts (w\<lparr>faults := fs\<rparr>) = pop_candidate name mp ts w"
    using locked_rows_cong [of "w\<lparr>faults := fs\<rparr>" w None] by (simp add: pop_candidate_def)
  then show ?thesis by (simp add: pop_outcome_def split: sum.split)
qed

lemma QueuePop_outcome:
  assumes plain: "tx s = None" and fresh: "next_tx w \<notin> fst ` set (open_txs w)"
    and pop: "QueuePop s name mp ts w = (res, u)"
  shows "pop_outcome name mp ts w res u"
proof (cases "ts = []")
  case True
  then show ?thesis using pop by (auto simp: QueuePop_def pop_outcome_def)
next
  case False
  obtain cr u1 where pc: "pop_precount s name mp ts w = (cr, u1)" by fastforce
  then obtain fs where u1: "u1 = w\<lparr>faults := fs\<rparr>"
    using query_world [OF plain, of w "fst (query s w)" "snd (query s w)"]
    by (auto simp: pop_precount_def split: prod.splits sum.splits)
  obtain br v where b: "begin_tx u1 = (br, v)" by fastforce
  note bw = begin_tx_world [OF b]
  show ?thesis
  proof (cases "\<exists>cnt t. cr = Inr cnt \<and> cnt \<noteq> 0 \<and> br = Inr t")
    case True
    then obtain cnt where c: "cr = Inr cnt" "cnt \<noteq> 0" and br: "br = Inr (next_tx u1)" using bw by auto
    from bw br obtain gs where v: "v = u1\<lparr>faults := gs, next_tx := Suc (next_tx u1),
        open_txs := AList.update (next_tx u1) \<lparr>tx_log = [], tx_aborted = False\<rparr> (open_txs u1)\<rparr>" by auto
    obtain bres x where body: "pop_body \<lparr>tx = Some (next_tx u1), notifier = notifier s, pendingNotifications = []\<rparr>
        name mp ts v = (bres, x)" by fastforce
    have "pop_outcome name mp ts u1 bres (case bres of Inl e \<Rightarrow> rollback_tx (next_tx u1) x | Inr work \<Rightarrow> snd (commit_tx (next_tx u1) x))"
      by (rule QueuePop_tx_outcome [OF plain _ refl v body]) (use fresh u1 in simp)
    moreover have "(res, u) = (bres, case bres of Inl e \<Rightarrow> rollback_tx (next_tx u1) x | Inr work \<Rightarrow> snd (commit_tx (next_tx u1) x))"
      using pop False pc c b br body plain by (cases bres) (auto simp: QueuePop_def)
    ultimately show ?thesis
      unfolding u1 pop_outcome_faults by simp
  next
    case nope: False
    then show ?thesis
      using pop False pc b plain bw u1
      by (auto simp: QueuePop_def pop_outcome_def split: sum.splits if_splits)
  qed
qed

section \<open>Every operation keeps the invariant\<close>

lemma stmt_plain_world: "tx s = None \<Longrightarrow> stmt s w = (e, u) \<Longrightarrow> \<exists>fs. u = w\<lparr>faults := fs\<rparr>"
proof -
  have "\<exists>fs. w = w\<lparr>faults := fs\<rparr>" by (rule exI [of _ "faults w"]) simp
  then show "tx s = None \<Longrightarrow> stmt s w = (e, u) \<Longrightarrow> ?thesis"
    by (auto simp: stmt_def abort_tx_def split: option.splits list.splits)
qed

lemma store_inv_faults [simp]: "store_inv (w\<lparr>faults := fs\<rparr>) = store_inv w"
  "store_inv (w\<lparr>notified := ns\<rparr>) = store_inv w"
  by (simp_all add: store_inv_def)

lemma wf_tables_dml:
  assumes "wf_tables qs ps T"
  shows "wf_tables qs ps (apply_dml (DelQueueByPermit p) T)" "wf_tables qs ps (apply_dml (DelPermit p) T)"
    "wf_tables qs ps (apply_dml (DelFailure a) T)" "wf_tables qs ps (apply_dml (InsFailure a e) T)"
  using assms by (auto simp: wf_tables_def wf_rows_filter)

lemma exec_inv:
  assumes "tx s = None" and "store_inv w"
    and "\<And>qs ps T. wf_tables qs ps T \<Longrightarrow> wf_tables qs ps (apply_dml d T)"
  shows "store_inv (snd (exec s d w))"
proof -
  obtain e u where st: "stmt s w = (e, u)" by fastforce
  with stmt_plain_world [OF assms(1)] obtain fs where "u = w\<lparr>faults := fs\<rparr>" by blast
  with assms st show ?thesis
    by (cases e) (auto simp: exec_def record_dml_def store_inv_def)
qed

lemma queueNotify_inv [simp]: "store_inv (snd (queueNotify s ch w)) = store_inv w"
  by (simp add: store_inv_def)

lemma notify_result_inv:
  assumes "store_inv (snd r)"
  shows "store_inv (snd (snd (case r of (Some e, u) \<Rightarrow> (f e, s, u)
    | (None, u) \<Rightarrow> (case queueNotify s ch u of (s', v) \<Rightarrow> (None, s', v)))))"
  using assms queueNotify_inv [of s ch "snd r"]
  by (cases r; cases "fst r"; cases "queueNotify s ch (snd r)") (simp_all del: queueNotify_inv)

lemma insert_queue_inv:
  assumes plain: "tx s = None" and inv: "store_inv w" and mk: "\<And>i. row_id (mk i) = i" "\<And>i. row_permit (mk i) = 0"
  shows "store_inv (snd (insert_queue s mk w))"
proof -
  obtain e u where st: "stmt s w = (e, u)" by fastforce
  with stmt_plain_world [OF assms(1)] obtain fs where u: "u = w\<lparr>faults := fs\<rparr>" by blast
  let ?i = "queue_id_seq w + 1"
  have wf: "wf_tables (queue_id_seq w) (permits_id_seq w) (pool w)" using inv by (simp add: store_inv_def)
  show ?thesis
  proof (cases "e \<noteq> None \<or> row_address (mk ?i) \<noteq> None \<and> row_address (mk ?i) \<in> set (map row_address (queue (pool w)))")
    case True
    have "wf_tables ?i (permits_id_seq w) (pool w)" using wf by (rule wf_tables_mono) simp_all
    with True inv st u plain show ?thesis
      by (auto simp: insert_queue_def Let_def abort_tx_def store_inv_def split: option.splits)
  next
    case False
    then have e: "e = None" and ok: "row_address (mk ?i) \<noteq> None \<Longrightarrow> row_address (mk ?i) \<notin> set (map row_address (queue (pool w)))"
      by auto
    have "wf_rows ?i (permits_id_seq w) (queue (pool w) @ [mk ?i])"
      by (rule wf_rows_append [OF _ mk _ _ ok]) (use wf in \<open>simp_all add: wf_tables_def\<close>)
    then have "wf_tables ?i (permits_id_seq w) (apply_dml (InsQueue (mk ?i)) (pool w))"
      using wf by (simp add: wf_tables_def)
    moreover have "insert_queue s mk w = (None, w\<lparr>faults := fs, queue_id_seq := ?i, pool := apply_dml (InsQueue (mk ?i)) (pool w)\<rparr>)"
      using False st u plain by (auto simp: insert_queue_def Let_def record_dml_def)
    ultimately show ?thesis
      using inv by (simp add: store_inv_def)
  qed
qed

lemma QueuePush_inv:
  assumes "tx s = None" and "store_inv w"
  shows "store_inv (snd (snd (QueuePush s name g pri wt  work c w)))"
proof (cases work)
  case (Inr item)
  show ?thesis
    unfolding QueuePush_def Inr sum.case
    by (intro notify_result_inv insert_queue_inv assms) simp_all
qed (simp add: QueuePush_def assms)

lemma QueuePushAddressed_inv:
  assumes "tx s = None" and "store_inv w"
  shows "store_inv (snd (snd (QueuePushAddressed s name g pri wt a work c w)))"
proof (cases work)
  case (Inr item)
  show ?thesis
    unfolding QueuePushAddressed_def Inr sum.case
    by (intro notify_result_inv insert_queue_inv assms) simp_all
qed (simp add: QueuePushAddressed_def assms)

lemma QueueDelete_inv:
  assumes "tx s = None" and "store_inv w"
  shows "store_inv (snd (snd (QueueDelete s p w)))"
proof -
  let ?r = "exec s (DelQueueByPermit (int64_of_uint64 p)) w"
  have 1: "store_inv (snd ?r)" by (rule exec_inv [OF assms wf_tables_dml(1)])
  obtain e u where eu: "?r = (e, u)" by fastforce
  with 1 have "store_inv (snd (exec s (DelPermit (int64_of_uint64 p)) u))"
    by (intro exec_inv [OF assms(1) _ wf_tables_dml(2)]) simp
  then show ?thesis
    using 1 eu unfolding QueueDelete_def
    by (cases e) (simp_all add: notify_result_inv)
qed

lemma QueuePermitDelete_inv:
  "tx s = None \<Longrightarrow> store_inv w \<Longrightarrow> store_inv (snd (QueuePermitDelete s p w))"
  unfolding QueuePermitDelete_def by (rule exec_inv [OF _ _ wf_tables_dml(2)])

lemma QueueAddressedComplete_inv:
  assumes "tx s = None" and "store_inv w"
  shows "store_inv (snd (QueueAddressedComplete mq s a f w))"
proof -
  have 1: "store_inv (snd (exec s (DelFailure a) w))" by (rule exec_inv [OF assms wf_tables_dml(3)])
  have 2: "store_inv (snd (exec s (InsFailure a raw) (snd (exec s (DelFailure a) w))))" for raw
    by (rule exec_inv [OF assms(1) 1 wf_tables_dml(4)])
  show ?thesis
    using 1 2 by (auto simp: QueueAddressedComplete_def split: prod.splits option.splits sum.splits) (metis snd_conv)+
qed

lemma QueuePop_inv:
  assumes "tx s = None" and inv: "store_inv w"
  shows "store_inv (snd (QueuePop s name mp ts w))"
proof -
  obtain res u where pop: "QueuePop s name mp ts w = (res, u)" by fastforce
  note out = QueuePop_outcome [OF assms(1) store_inv_fresh [OF inv] pop]
  have wf: "wf_tables (queue_id_seq w) (permits_id_seq w) (pool w)" using inv by (simp add: store_inv_def)
  have "wf_tables (queue_id_seq u) (permits_id_seq u) (pool u)"
    using out wf wf_tables_claim [OF wf] wf_tables_mono [OF wf]
    by (auto simp: pop_outcome_def split: sum.splits)
  then show ?thesis
    using out inv pop unfolding pop_outcome_def store_inv_def by fastforce
qed

lemma newPgStore_tx [simp]: "tx (newPgStore n) = None" "notifier (newPgStore n) = n"
  "pendingNotifications (newPgStore n) = []"
  by (simp_all add: newPgStore_def)

lemma store_inv_empty: "store_inv (empty_world\<lparr>faults := fs\<rparr>)"
  by (simp add: store_inv_def empty_world_def wf_tables_def wf_rows_def empty_tables_def)

interpretation store_runs: invariant_system "run_store_op mq" store_inv for mq
proof unfold_locales
  fix w x
  assume "store_inv w"
  then show "store_inv (run_store_op mq x w)"
    by (cases x) (simp_all add: QueuePush_inv QueuePushAddressed_inv QueuePop_inv QueueDelete_inv
        QueuePermitDelete_inv QueueAddressedComplete_inv)
qed

lemma claimable_set_permit:
  "p \<noteq> 0 \<Longrightarrow> claimable name mp ts (set_permit i p r) \<longleftrightarrow> row_id r \<noteq> i \<and> claimable name mp ts r"
  by (simp add: claimable_def)

lemma filter_claim_rest:
  assumes "distinct (map row_id rows)" and "r \<in> set rows" and "claimable name mp ts r" and "p \<noteq> 0"
  shows "mset (filter (claimable name mp ts) rows)
    = add_mset r (mset (filter (claimable name mp ts) (map (set_permit (row_id r) p) rows)))"
  using assms
proof (induction rows)
  case Nil
  then show ?case by simp
next
  case (Cons q rows)
  show ?case
  proof (cases "r = q")
    case True
    have "map (set_permit (row_id r) p) rows = rows"
      using Cons.prems True by (intro map_idI) (auto simp: set_permit_def, metis imageI)
    with True Cons.prems show ?thesis by (simp add: claimable_set_permit)
  next
    case False
    with Cons.prems have "r \<in> set rows" "row_id q \<noteq> row_id r" by auto
    then have "set_permit (row_id r) p q = q" by (simp add: set_permit_def)
    with Cons \<open>r \<in> set rows\<close> show ?thesis by simp
  qed
qed

lemma find_claimed:
  assumes "distinct (map row_id rows)" and "r \<in> set rows" and "\<forall>q \<in> set rows. row_permit q \<noteq> p"
  shows "find (\<lambda>q. row_permit q = p) (map (set_permit (row_id r) p) rows) = Some (r\<lparr>row_permit := p\<rparr>)"
  using assms
proof (induction rows)
  case Nil
  then show ?case by simp
next
  case (Cons q rows)
  show ?case
  proof (cases "r = q")
    case True
    then show ?thesis by (simp add: set_permit_def)
  next
    case False
    with Cons.prems have "r \<in> set rows" "row_id q \<noteq> row_id r" by auto
    with Cons show ?thesis by simp
  qed
qed

lemma quiet_fresh: "quiet name mp ts w \<Longrightarrow> next_tx w \<notin> fst ` set (open_txs w)"
  by (simp add: quiet_def)

lemma pop_candidate_quiet:
  "open_txs w = [] \<Longrightarrow> pop_candidate name mp ts w = order_limit1 (waiting_rows name mp ts w)"
  by (simp add: pop_candidate_def waiting_rows_def locked_rows_def)

lemma claimable_Nil [simp]: "\<not> claimable name mp [] r"
  by (simp add: claimable_def)

lemma QueuePop_quiet:
  assumes "quiet name mp ts w" and "tx s = None"
  shows "QueuePop s name mp ts w =
    (case order_limit1 (waiting_rows name mp ts w) of
       None \<Rightarrow> (Inl ErrNoRows, w)
     | Some r \<Rightarrow> (Inr (work_of (permits_id_seq w + 1) r),
         w\<lparr>pool := claim_tables (row_id r) (permits_id_seq w + 1) (pool w),
           permits_id_seq := permits_id_seq w + 1, next_tx := Suc (next_tx w)\<rparr>))"
proof (cases "ts = []")
  case True
  then show ?thesis by (simp add: QueuePop_def waiting_rows_def)
next
  case False
  have f: "faults w = []" "open_txs w = []" using assms(1) by (simp_all add: quiet_def)
  show ?thesis
    unfolding QueuePop_ok [OF assms(2) f(1) False quiet_fresh [OF assms(1)]]
    by (cases "waiting_rows name mp ts w")
       (simp_all add: pop_candidate_quiet [OF f(2)] waiting_rows_def del: order_limit1.simps split: option.split)
qed

lemma pop_row_quiet:
  assumes q: "quiet name mp ts w"
  shows "pop_row name mp ts w =
    (case order_limit1 (waiting_rows name mp ts w) of
       None \<Rightarrow> None
     | Some r \<Rightarrow> Some (r, w\<lparr>pool := claim_tables (row_id r) (permits_id_seq w + 1) (pool w),
           permits_id_seq := permits_id_seq w + 1, next_tx := Suc (next_tx w)\<rparr>))"
proof (cases "order_limit1 (waiting_rows name mp ts w)")
  case None
  then show ?thesis by (simp add: pop_row_def QueuePop_quiet [OF q])
next
  case (Some r)
  let ?p = "permits_id_seq w + 1"
  from order_limit1_Some [OF Some] have r: "r \<in> set (queue (pool w))" "claimable name mp ts r"
    by (auto simp: waiting_rows_def)
  have wf: "wf_rows (queue_id_seq w) (permits_id_seq w) (queue (pool w))" and ps: "0 \<le> permits_id_seq w"
    using q by (simp_all add: quiet_def store_inv_def wf_tables_def)
  have "1 \<le> length (waiting_rows name mp ts w)" using Some by (cases "waiting_rows name mp ts w") auto
  then have "permits_id_seq w + 1 < 2 ^ 63" using q unfolding quiet_def by linarith
  then have p: "int64_of_uint64 (uint64_of_int64 ?p) = ?p"
    using ps by (intro int64_uint64_roundtrip) (simp add: in_int64_def)
  have "find (\<lambda>q. row_permit q = ?p) (map (set_permit (row_id r) ?p) (queue (pool w))) = Some (r\<lparr>row_permit := ?p\<rparr>)"
    by (rule find_claimed [OF _ r(1)]) (use wf in \<open>fastforce simp: wf_rows_def\<close>)+
  moreover have "r\<lparr>row_permit := 0\<rparr> = r" using r(2) by (simp add: claimable_def)
  ultimately show ?thesis
    using Some p by (simp add: pop_row_def QueuePop_quiet [OF q] work_of_def)
qed

lemma quiet_pop:
  assumes q: "quiet name mp ts w" and pop: "pop_row name mp ts w = Some (r, u)"
  shows "order_limit1 (waiting_rows name mp ts w) = Some r"
    and "mset (waiting_rows name mp ts w) = add_mset r (mset (waiting_rows name mp ts u))"
    and "quiet name mp ts u"
proof -
  from pop show o: "order_limit1 (waiting_rows name mp ts w) = Some r"
    by (simp add: pop_row_quiet [OF q] split: option.splits)
  from pop o have u: "u = w\<lparr>pool := claim_tables (row_id r) (permits_id_seq w + 1) (pool w),
           permits_id_seq := permits_id_seq w + 1, next_tx := Suc (next_tx w)\<rparr>"
    by (simp add: pop_row_quiet [OF q])
  from order_limit1_Some [OF o] have r: "r \<in> set (queue (pool w))" "claimable name mp ts r"
    by (auto simp: waiting_rows_def)
  have inv: "store_inv w" and wf: "wf_rows (queue_id_seq w) (permits_id_seq w) (queue (pool w))" and ps: "0 \<le> permits_id_seq w"
    using q by (simp_all add: quiet_def store_inv_def wf_tables_def)
  show m: "mset (waiting_rows name mp ts w) = add_mset r (mset (waiting_rows name mp ts u))"
    unfolding waiting_rows_def u using filter_claim_rest [OF _ r, of "permits_id_seq w + 1"] wf ps
    by (simp add: wf_rows_def)
  then have "length (waiting_rows name mp ts w) = Suc (length (waiting_rows name mp ts u))"
    by (metis size_add_mset size_mset)
  moreover have "store_inv u"
    using QueuePop_inv [OF newPgStore_tx(1) inv, of True name mp ts] o
    by (simp add: QueuePop_quiet [OF q] u)
  ultimately show "quiet name mp ts u"
    using q by (simp add: quiet_def u)
qed

interpretation store_queue: claim_queue "quiet name mp ts" "waiting_rows name mp ts" row_before "pop_row name mp ts"
  for name mp ts
proof unfold_locales
  fix w :: pg_world
  assume q: "quiet name mp ts w"
  show "(pop_row name mp ts w = None) = (waiting_rows name mp ts w = [])"
    by (simp add: pop_row_quiet [OF q] split: option.split) (metis order_limit1_None option.discI)
next
  fix w u :: pg_world and r q :: queue_row
  assume w: "quiet name mp ts w" and pop: "pop_row name mp ts w = Some (r, u)"
  note facts = quiet_pop [OF w pop]
  note first = order_limit1_Some [OF facts(1)]
  show "r \<in> set (waiting_rows name mp ts w)" using first by simp
  show "q \<in> set (waiting_rows name mp ts w) \<Longrightarrow> row_before r q" using first by simp
  show "mset (waiting_rows name mp ts w) = add_mset r (mset (waiting_rows name mp ts u))" by (rule facts(2))
  show "quiet name mp ts u" by (rule facts(3))
qed

section \<open>Transactions\<close>

lemma notify_all_world:
  "notify_all ns w = w\<lparr>notified := notified w @ map (\<lambda>n. (channel n, payload n)) ns\<rparr>"
  by (induction ns w rule: notify_all.induct) simp_all

lemma QueuePush_tx:
  assumes "in_tx s t lg w"
  shows "QueuePush s name None pri wt (Inr item) None w =
    (None, s\<lparr>pendingNotifications := pendingNotifications s @ [ready_note]\<rparr>,
     w\<lparr>queue_id_seq := queue_id_seq w + 1, open_txs :=
       AList.update t \<lparr>tx_log = lg @ [InsQueue (pushed_row (queue_id_seq w + 1) (name, pri, wt, item))], tx_aborted = False\<rparr> (open_txs w)\<rparr>)"
proof -
  have i: "in_tx s t lg (w\<lparr>queue_id_seq := queue_id_seq w + 1\<rparr>)"
    by (rule in_tx_frame [OF assms]) simp_all
  have "tx s = Some t" using assms by (simp add: in_tx_def)
  then show ?thesis
    by (simp add: QueuePush_def insert_queue_def in_tx_stmt [OF assms] in_tx_record [OF i] Let_def
        queueNotify_def pushed_row_def ready_note_def)
qed

lemma push_all_tx:
  "in_tx s t lg w \<Longrightarrow>
   push_all s ps w = (None, s\<lparr>pendingNotifications := pendingNotifications s @ replicate (length ps) ready_note\<rparr>,
     if ps = [] then w else w\<lparr>queue_id_seq := queue_id_seq w + int (length ps), open_txs :=
       AList.update t \<lparr>tx_log = lg @ map InsQueue (pushed_rows (queue_id_seq w) ps), tx_aborted = False\<rparr> (open_txs w)\<rparr>)"
proof (induction ps arbitrary: s lg w)
  case Nil
  then show ?case by simp
next
  case (Cons p ps)
  obtain name pri wt item where p: "p = (name, pri, wt, item)" by (cases p) auto
  let ?s = "s\<lparr>pendingNotifications := pendingNotifications s @ [ready_note]\<rparr>"
  let ?lg = "lg @ [InsQueue (pushed_row (queue_id_seq w + 1) p)]"
  let ?u = "w\<lparr>queue_id_seq := queue_id_seq w + 1, open_txs := AList.update t \<lparr>tx_log = ?lg, tx_aborted = False\<rparr> (open_txs w)\<rparr>"
  have "in_tx ?s t ?lg ?u"
    using Cons.prems by (simp add: in_tx_def update_conv')
  from Cons.IH [OF this] show ?case
    using QueuePush_tx [OF Cons.prems, of name pri wt item]
    by (cases ps) (simp_all add: p)
qed

lemma QueuePushAddressed_plain_eq:
  assumes "tx s = None" and "faults w = []" and "notifier s"
  shows "QueuePushAddressed s name g pri wt a (Inr item) c w =
    (if Some a \<in> set (map row_address (queue (pool w)))
     then (Some ErrDuplicateAddressedPush, s, w\<lparr>queue_id_seq := queue_id_seq w + 1\<rparr>)
     else (None, s, w\<lparr>queue_id_seq := queue_id_seq w + 1,
       pool := (pool w)\<lparr>queue := queue (pool w) @ [\<lparr>row_id = queue_id_seq w + 1, row_name = name,
          row_priority = int64_of_uint64 pri, row_permit = 0, row_item = item, row_group_id = g,
          row_type = int64_of_uint64 wt, row_address = Some a, row_carrier = c\<rparr>]\<rparr>,
       notified := notified w @ [(''messages'', \<lparr>NotifyType = 1\<rparr>)]\<rparr>))"
  using assms
  by (auto simp: QueuePushAddressed_def insert_queue_def view_def record_dml_def abort_tx_def Let_def isUniqueViolation_def
      queueNotify_plain queueReadyChannel_def channelMessages_def notifyTypeQueue_def)

section \<open>Properties\<close>



text \<open>
  C8: consuming the queue: popping until nothing is available hands out exactly the waiting rows, sorted
  by priority and, within a priority, by insertion, and leaves nothing waiting.
\<close>

theorem store_drains_in_order:
  assumes "quiet name mp ts w" and "length (waiting_rows name mp ts w) \<le> n"
    and "drain (pop_row name mp ts) n w = (rs, u)"
  shows "rs = sort_key claim_key_of (waiting_rows name mp ts w) \<and> waiting_rows name mp ts u = []"
proof -
  have "inj_on row_id (set (waiting_rows name mp ts w))"
    using assms(1) by (auto simp: quiet_def store_inv_def wf_tables_def wf_rows_def waiting_rows_def distinct_map intro: inj_on_subset)
  then show ?thesis using store_queue.drain_all [OF assms] claim_order_unique by blast
qed

text \<open>
  C26: a pop that reports an error, whichever statement failed, has not touched the committed
  tables: no row is left claimed and no permit is left behind, and its transaction is closed.
\<close>

theorem QueuePop_error_changes_nothing:
  assumes "store_inv w" and "tx s = None" and "QueuePop s name mp ts w = (Inl e, u)"
  shows "pool u = pool w \<and> open_txs u = open_txs w \<and> notified u = notified w"
  using QueuePop_outcome [OF assms(2) store_inv_fresh [OF assms(1)] assms(3)]
  by (simp add: pop_outcome_def)

text \<open>
  C40: the result of the commit is dropped: when the database refuses the commit of a claim, the pop
  still hands the work out, while the row stays unclaimed and the next pop can hand it out again.
\<close>

theorem QueuePop_ignores_failed_commit:
  assumes "store_inv w" and "tx s = None" and "ts \<noteq> []"
    and "faults w = [None, None, None, None, Some e]" and "pop_candidate name mp ts w = Some r"
  shows "\<exists>u. QueuePop s name mp ts w = (Inr (work_of (permits_id_seq w + 1) r), u) \<and> pool u = pool w"
proof -
  let ?t = "next_tx w" and ?p = "permits_id_seq w + 1"
  let ?b = "\<lparr>tx = Some ?t, notifier = notifier s, pendingNotifications = []\<rparr>"
  note c = pop_candidate_Some [OF assms(5)]
  have ne: "filter (claimable name mp ts) (queue (pool w)) \<noteq> []" using c(1,2) by (auto simp: filter_empty_conv)
  define v where "v = w\<lparr>faults := [None, None, Some e], next_tx := Suc ?t,
      open_txs := AList.update ?t \<lparr>tx_log = [], tx_aborted = False\<rparr> (open_txs w)\<rparr>"
  define x where "x = v\<lparr>faults := [None, Some e], permits_id_seq := ?p,
      open_txs := AList.update ?t \<lparr>tx_log = [InsPermit ?p], tx_aborted = False\<rparr> (open_txs w)\<rparr>"
  define y where "y = x\<lparr>faults := [Some e],
      open_txs := AList.update ?t \<lparr>tx_log = [InsPermit ?p, SetPermit (row_id r) ?p], tx_aborted = False\<rparr> (open_txs w)\<rparr>"
  have pc: "pop_precount s name mp ts w =
      (Inr (length (filter (claimable name mp ts) (queue (pool w)))), w\<lparr>faults := [None, None, None, Some e]\<rparr>)"
    using assms(2,4) by (simp add: pop_precount_def query_def stmt_def view_def)
  have bg: "begin_tx (w\<lparr>faults := [None, None, None, Some e]\<rparr>) = (Inr ?t, v)"
    by (simp add: begin_tx_def v_def)
  have pp: "pop_permit ?b v = (Inr ?p, x)"
    by (simp add: pop_permit_def stmt_def record_dml_def update_conv' v_def x_def Let_def)
  have lk: "locked_rows (Some ?t) z = locked_rows None w" if "pool z = pool w" "open_txs z = open_txs x" for z
    using that by (intro locked_rows_own [OF store_inv_fresh [OF assms(1)]]) (simp_all add: x_def)
  have cl: "pop_claim ?b ?p name mp ts x = (Inr r, y)"
    using assms(5) lk [of "x\<lparr>faults := [Some e]\<rparr>"]
    by (simp add: pop_claim_def stmt_def view_def record_dml_def update_conv' pop_candidate_def x_def v_def y_def)
  have cm: "pool (snd (commit_tx ?t y)) = pool w"
    by (simp add: commit_tx_def y_def x_def v_def update_conv' Let_def)
  show ?thesis
    using ne assms(2,3) cm
    by (simp add: QueuePop_def pc bg pop_body_def pp cl)
qed

lemmas sample_defs = sample_world_def sample_row_def benchQueueName_def

lemma sample_world_simps [simp]:
  "faults sample_world = []" "open_txs sample_world = []" "next_tx sample_world = 0"
  "permits_id_seq sample_world = 0" "queue_id_seq sample_world = 2" "notified sample_world = []"
  "queue (pool sample_world) = [sample_row 1 10 None, sample_row 2 5 (Some ''a'')]"
  "queue_failure (pool sample_world) = []"
  by (simp_all add: sample_world_def)

lemma sample_row_simps [simp]:
  "row_id (sample_row i p a) = i" "row_priority (sample_row i p a) = p" "row_permit (sample_row i p a) = 0"
  "row_address (sample_row i p a) = a" "row_name (sample_row i p a) = benchQueueName" "row_type (sample_row i p a) = 7"
  "row_item (sample_row i p a) = JNum (of_int i)" "row_carrier (sample_row i p a) = None"
  by (simp_all add: sample_row_def)

lemma sample_inv: "store_inv sample_world"
  by (auto simp: store_inv_def wf_tables_def wf_rows_def sample_world_def inj_on_def)

lemma sample_waiting: "waiting_rows benchQueueName 20 [7] sample_world = [sample_row 1 10 None, sample_row 2 5 (Some ''a'')]"
  by (simp add: waiting_rows_def claimable_def int64_of_uint64_def)

lemma sample_quiet: "quiet benchQueueName 20 [7] sample_world"
  by (simp add: quiet_def sample_inv sample_waiting)

lemma sample_candidate:
  "order_limit1 [sample_row 1 10 None, sample_row 2 5 (Some ''a'')] = Some (sample_row 2 5 (Some ''a''))"
  by (simp add: row_before_def)


theorem store_drains_in_order_witness:
  "map row_id (fst (drain (pop_row benchQueueName 20 [7]) 2 sample_world)) = [2, 1]"
  using store_drains_in_order [OF sample_quiet, of 2 "fst (drain (pop_row benchQueueName 20 [7]) 2 sample_world)"
      "snd (drain (pop_row benchQueueName 20 [7]) 2 sample_world)"]
  by (simp add: sample_waiting claim_key_of_def less_eq_claim_key_def)

theorem QueuePop_error_changes_nothing_witness:
  "pool (snd (QueuePop (newPgStore True) benchQueueName 20 [7] (sample_world\<lparr>faults := [None, None, None, Some (External ''io'')]\<rparr>)))
     = pool sample_world"
proof -
  let ?w = "sample_world\<lparr>faults := [None, None, None, Some (External ''io'')]\<rparr>"
  obtain u where u: "QueuePop (newPgStore True) benchQueueName 20 [7] ?w = (Inl (Errorf ''queue pop claim: '' (External ''io'')), u)"
    by (simp add: QueuePop_def pop_precount_def query_def stmt_def view_def claimable_def int64_of_uint64_def begin_tx_def
        pop_body_def pop_permit_def record_dml_def pop_claim_def update_conv' errors_is_def Let_def)
  have "store_inv ?w" using sample_inv by simp
  from QueuePop_error_changes_nothing [OF this newPgStore_tx(1) u] show ?thesis
    using u by simp
qed

theorem QueuePop_ignores_failed_commit_witness:
  "\<exists>u. QueuePop (newPgStore True) benchQueueName 20 [7]
        (sample_world\<lparr>faults := [None, None, None, None, Some (External ''io'')]\<rparr>)
      = (Inr (work_of 1 (sample_row 2 5 (Some ''a''))), u) \<and> pool u = pool sample_world"
proof -
  let ?w = "sample_world\<lparr>faults := [None, None, None, None, Some (External ''io'')]\<rparr>"
  have "store_inv ?w" using sample_inv by simp
  moreover have "pop_candidate benchQueueName 20 [7] ?w = Some (sample_row 2 5 (Some ''a''))"
    using sample_waiting sample_candidate by (simp add: pop_candidate_quiet waiting_rows_def del: order_limit1.simps)
  ultimately show ?thesis
    using QueuePop_ignores_failed_commit [of ?w "newPgStore True" "[7]" "External ''io''" benchQueueName 20 "sample_row 2 5 (Some ''a'')"]
    by simp
qed

text \<open>
  C14: completing a popped piece of work: deleting with the permit the pop returned removes exactly
  the row that was claimed, and the permit, and nothing else; the other rows and permits are as
  they were before the pop.
\<close>

theorem pop_then_delete_removes_one_row:
  assumes q: "quiet name mp ts w" and plain: "tx s = None"
    and pop: "QueuePop s name mp ts w = (Inr work, u)" and del: "QueueDelete s (Permit work) u = (e, s', v)"
  shows "e = None \<and> (\<exists>r \<in> set (waiting_rows name mp ts w). Work work = row_item r
      \<and> queue (pool v) = filter (\<lambda>q. row_id q \<noteq> row_id r) (queue (pool w)))
    \<and> queue_permits (pool v) = queue_permits (pool w)"
proof -
  let ?p = "permits_id_seq w + 1"
  from pop obtain r where o: "order_limit1 (waiting_rows name mp ts w) = Some r" and work: "work = work_of ?p r"
      and u: "u = w\<lparr>pool := claim_tables (row_id r) ?p (pool w), permits_id_seq := ?p, next_tx := Suc (next_tx w)\<rparr>"
    by (auto simp: QueuePop_quiet [OF q plain] split: option.splits)
  from order_limit1_Some [OF o] have r: "r \<in> set (waiting_rows name mp ts w)" by simp
  have wf: "wf_tables (queue_id_seq w) (permits_id_seq w) (pool w)" and f: "faults w = []"
    using q by (simp_all add: quiet_def store_inv_def)
  have "1 \<le> length (waiting_rows name mp ts w)" using r by (cases "waiting_rows name mp ts w") auto
  then have "?p < 2 ^ 63" and "0 \<le> permits_id_seq w" using q wf unfolding quiet_def wf_tables_def by linarith+
  then have p: "int64_of_uint64 (Permit work) = ?p"
    unfolding work work_of_def by (simp add: int64_uint64_roundtrip in_int64_def)
  have rows: "filter (\<lambda>q. row_permit q \<noteq> ?p) (map (set_permit (row_id r) ?p) rows) = filter (\<lambda>q. row_id q \<noteq> row_id r) rows"
    if "\<forall>q \<in> set rows. row_permit q \<noteq> ?p" for rows
    using that by (induction rows) (auto simp: set_permit_def)
  have perm: "filter (\<lambda>q. q \<noteq> ?p) (queue_permits (pool w)) = queue_permits (pool w)"
    using wf by (intro filter_eq_self) (auto simp: wf_tables_def)
  have "\<forall>q \<in> set (queue (pool w)). row_permit q \<noteq> ?p"
    using wf by (fastforce simp: wf_tables_def wf_rows_def)
  note rows = rows [OF this]
  have d1: "exec s (DelQueueByPermit ?p) u = (None, u\<lparr>pool := apply_dml (DelQueueByPermit ?p) (pool u)\<rparr>)"
    by (rule exec_ok) (simp_all add: plain u f)
  have "exec s (DelPermit ?p) (u\<lparr>pool := apply_dml (DelQueueByPermit ?p) (pool u)\<rparr>)
      = (None, u\<lparr>pool := apply_dml (DelPermit ?p) (apply_dml (DelQueueByPermit ?p) (pool u))\<rparr>)"
    by (subst exec_ok) (simp_all add: plain u f)
  with del d1 have "e = None" and "pool v = apply_dml (DelPermit ?p) (apply_dml (DelQueueByPermit ?p) (pool u))"
    by (auto simp: QueueDelete_def p queueNotify_plain [OF plain] split: if_splits)
  with r rows perm show ?thesis
    unfolding work by (auto simp: u work_of_def)
qed

text \<open>
  C27: addressed work is de-duplicated: while a row with the address is in the queue, claimed or
  not, a second push of that address returns \<^verbatim>\<open>ErrDuplicateAddressedPush\<close>, adds no row and notifies
  nobody; otherwise the row is appended with the next id and one notification is sent.
\<close>

theorem QueuePushAddressed_dedup:
  assumes "tx s = None" and "faults w = []" and "notifier s"
  shows "QueuePushAddressed s name g pri wt a (Inr item) c w =
    (if Some a \<in> set (map row_address (queue (pool w)))
     then (Some ErrDuplicateAddressedPush, s, w\<lparr>queue_id_seq := queue_id_seq w + 1\<rparr>)
     else (None, s, w\<lparr>queue_id_seq := queue_id_seq w + 1,
       pool := (pool w)\<lparr>queue := queue (pool w) @ [\<lparr>row_id = queue_id_seq w + 1, row_name = name,
          row_priority = int64_of_uint64 pri, row_permit = 0, row_item = item, row_group_id = g,
          row_type = int64_of_uint64 wt, row_address = Some a, row_carrier = c\<rparr>]\<rparr>,
       notified := notified w @ [(''messages'', \<lparr>NotifyType = 1\<rparr>)]\<rparr>))"
  using assms by (rule QueuePushAddressed_plain_eq)

text \<open>
  C13: pushes inside a transaction are atomic and their notifications follow the commit: before the
  end nothing is visible and nobody is notified; ending with an error discards rows and
  notifications; ending without one appends all rows in order, with consecutive ids, and then
  sends one notification per push.
\<close>

theorem transaction_is_atomic:
  assumes "tx s = None" and "faults w = []" and "notifier s" and "open_txs w = []"
    and "BeginTransactionQueue s w = (Inr b, u)" and "push_all b ps u = (e, b', v)"
  shows "e = None \<and> pool v = pool w \<and> notified v = notified w
    \<and> (case CompleteTransaction b' (Some (Some err)) v of (errp, b2, x) \<Rightarrow>
          errp = Some (Some err) \<and> pool x = pool w \<and> notified x = notified w \<and> open_txs x = [])
    \<and> (case CompleteTransaction b' (Some None) v of (errp, b2, x) \<Rightarrow>
          errp = Some None \<and> queue (pool x) = queue (pool w) @ pushed_rows (queue_id_seq w) ps
          \<and> notified x = notified w @ replicate (length ps) (''messages'', \<lparr>NotifyType = 1\<rparr>) \<and> open_txs x = [])"
proof -
  let ?t = "next_tx w"
  have bu: "b = \<lparr>tx = Some ?t, notifier = True, pendingNotifications = []\<rparr>"
      "u = w\<lparr>open_txs := [(?t, \<lparr>tx_log = [], tx_aborted = False\<rparr>)], next_tx := Suc ?t\<rparr>"
    using assms(1-5) by (auto simp: BeginTransactionQueue_def begin_tx_ok)
  have "in_tx b ?t [] u" using assms(2) by (simp add: in_tx_def bu)
  from push_all_tx [OF this, of ps] assms(6)
  have e: "e = None" and b': "b' = \<lparr>tx = Some ?t, notifier = True, pendingNotifications = replicate (length ps) ready_note\<rparr>"
    and v: "v = w\<lparr>queue_id_seq := queue_id_seq w + int (length ps), next_tx := Suc ?t,
        open_txs := [(?t, \<lparr>tx_log = map InsQueue (pushed_rows (queue_id_seq w) ps), tx_aborted = False\<rparr>)]\<rparr>"
    by (auto simp: bu split: if_splits)
  have ins: "queue (apply_log (map InsQueue rs) T) = queue T @ rs" for rs T
    by (induction rs arbitrary: T) simp_all
  have "CompleteTransaction b' (Some (Some err)) v =
      (Some (Some err), b'\<lparr>tx := None, pendingNotifications := []\<rparr>, v\<lparr>open_txs := []\<rparr>)"
    by (simp add: CompleteTransaction_def rollback_tx_def close_tx_def b' v)
  moreover have "CompleteTransaction b' (Some None) v =
      (Some None, b'\<lparr>tx := None, pendingNotifications := []\<rparr>,
       v\<lparr>open_txs := [], pool := apply_log (map InsQueue (pushed_rows (queue_id_seq w) ps)) (pool w),
         notified := notified w @ replicate (length ps) (''messages'', \<lparr>NotifyType = 1\<rparr>)\<rparr>)"
    using assms(2)
    by (simp add: CompleteTransaction_def commit_tx_def close_tx_def notify_all_world b' v Let_def ready_note_def
        map_replicate_const queueReadyChannel_def channelMessages_def notifyTypeQueue_def)
  ultimately show ?thesis using e by (simp add: v ins)
qed

text \<open>
  C28: a failure recorded for an address is what a poller of the address sees, whatever was recorded
  before; recording success clears it, and from then on the address is complete exactly when it is
  not in progress. The codec of the failure text is assumed to read back what it wrote.
\<close>

theorem addressed_failure_roundtrip:
  assumes codec: "\<And>m. marshal_qe m = Inr (enc m)" "\<And>m. unmarshal_qe (enc m) = Some m"
    and s: "tx s = None" and w: "faults w = []" and f: "error_text f \<noteq> ''''"
  shows "\<exists>u v. QueueAddressedComplete marshal_qe s a (Some f) w = (None, u)
      \<and> fst (IsQueueAddressComplete unmarshal_qe s a u) = (True, Some (QueueError (error_text f)))
      \<and> QueueAddressedComplete marshal_qe s a None u = (None, v) \<and> queue (pool v) = queue (pool w)
      \<and> (\<exists>c. fst (IsQueueAddressInProgress s a v) = (c, None)
           \<and> fst (IsQueueAddressComplete unmarshal_qe s a v) = (\<not> c, None)
           \<and> c = (Some a \<in> set (map row_address (queue (pool w)))))"
proof -
  define u where "u = w\<lparr>pool := (pool w)\<lparr>queue_failure :=
      filter (\<lambda>g. fst g \<noteq> a) (queue_failure (pool w)) @ [(a, enc (error_text f))]\<rparr>\<rparr>"
  define v where "v = w\<lparr>pool := (pool w)\<lparr>queue_failure := filter (\<lambda>g. fst g \<noteq> a) (queue_failure (pool w))\<rparr>\<rparr>"
  have fu: "faults u = []" and fv: "faults v = []" using w by (simp_all add: u_def v_def)
  have 1: "QueueAddressedComplete marshal_qe s a (Some f) w = (None, u)"
    using w by (simp add: QueueAddressedComplete_def exec_ok [OF s] codec u_def)
  have none: "filter (\<lambda>g. fst g = a) (filter (\<lambda>g. fst g \<noteq> a) fs) = []" for fs :: "(string \<times> string) list"
    by (simp add: filter_empty_conv)
  have 2: "fst (IsQueueAddressComplete unmarshal_qe s a u) = (True, Some (QueueError (error_text f)))"
    using f none [of "queue_failure (pool w)"]
    by (simp add: IsQueueAddressComplete_def query_ok [OF s fu] codec) (simp add: u_def codec)
  have 3: "QueueAddressedComplete marshal_qe s a None u = (None, v)"
    using w by (simp add: QueueAddressedComplete_def exec_ok [OF s] u_def v_def)
  have fq: "filter (\<lambda>g. fst g = a) (queue_failure (pool v)) = []"
    using none [of "queue_failure (pool w)"] by (simp add: v_def)
  have "length (address_rows a (pool v)) = 0 \<longleftrightarrow> Some a \<notin> set (map row_address (queue (pool w)))"
    by (force simp: address_rows_def filter_empty_conv v_def)
  then have 4: "fst (IsQueueAddressInProgress s a v) = (Some a \<in> set (map row_address (queue (pool w))), None)"
      "fst (IsQueueAddressComplete unmarshal_qe s a v) = (Some a \<notin> set (map row_address (queue (pool w))), None)"
    using none [of "queue_failure (pool w)"] fq
    by (simp_all add: IsQueueAddressInProgress_def IsQueueAddressComplete_def count_address_def query_ok [OF s fv])
  show ?thesis using 1 2 3 4 by (auto simp: v_def)
qed

text \<open>
  priorities and type codes travel through signed columns. Type codes keep their identity, so a
  pop asks for exactly the types it names; a priority of \<open>2 ^ 63\<close> or more becomes negative, so a row
  pushed with it overtakes every row pushed with a smaller priority value.
\<close>

theorem large_priority_overtakes:
  assumes "2 ^ 63 \<le> uint p" and "uint q < 2 ^ 63"
  shows "row_before (pushed_row i (name, p, t, item)) (pushed_row j (name, q, t', item'))
    \<and> \<not> row_before (pushed_row j (name, q, t', item')) (pushed_row i (name, p, t, item))
    \<and> (row_type (pushed_row i (name, p, t, item)) \<in> set (map int64_of_uint64 types) \<longleftrightarrow> t \<in> set types)"
proof -
  have "int64_of_uint64 p < 0" and "0 \<le> int64_of_uint64 q"
    using assms uint_lt2p [of p] by (simp_all add: int64_of_uint64_eq)
  then have "int64_of_uint64 p < int64_of_uint64 q" by simp
  then show ?thesis
    by (auto simp: row_before_def pushed_row_def)
qed

lemma sample_pop:
  "QueuePop (newPgStore True) benchQueueName 20 [7] sample_world =
     (Inr (work_of 1 (sample_row 2 5 (Some ''a''))),
      sample_world\<lparr>pool := claim_tables 2 1 (pool sample_world), permits_id_seq := 1, next_tx := 1\<rparr>)"
  by (simp add: QueuePop_quiet [OF sample_quiet] sample_waiting sample_candidate del: order_limit1.simps)

theorem pop_then_delete_removes_one_row_witness:
  "\<exists>work u e s' v. QueuePop (newPgStore True) benchQueueName 20 [7] sample_world = (Inr work, u)
     \<and> QueueDelete (newPgStore True) (Permit work) u = (e, s', v) \<and> e = None
     \<and> queue_permits (pool v) = queue_permits (pool sample_world)"
proof -
  obtain work u where pop: "QueuePop (newPgStore True) benchQueueName 20 [7] sample_world = (Inr work, u)"
    using sample_pop by blast
  obtain e s' v where del: "QueueDelete (newPgStore True) (Permit work) u = (e, s', v)"
    by (cases "QueueDelete (newPgStore True) (Permit work) u") auto
  from pop_then_delete_removes_one_row [OF sample_quiet newPgStore_tx(1) pop del] pop del
  show ?thesis by blast
qed

theorem QueuePushAddressed_dedup_witness:
  "fst (QueuePushAddressed (newPgStore True) benchQueueName None 10 7 ''a'' (Inr JNull) None sample_world)
     = Some ErrDuplicateAddressedPush"
  using QueuePushAddressed_dedup [of "newPgStore True" sample_world benchQueueName None 10 7 "''a''" JNull None]
  by simp

theorem transaction_is_atomic_witness:
  "\<exists>b u b' v. BeginTransactionQueue (newPgStore True) sample_world = (Inr b, u)
     \<and> push_all b [(benchQueueName, 10, 7, JNull), (benchQueueName, 10, 7, JBool True)] u = (None, b', v)
     \<and> pool v = pool sample_world"
proof -
  let ?ps = "[(benchQueueName, 10, 7, JNull), (benchQueueName, 10, 7, JBool True)]"
  obtain b u where bg: "BeginTransactionQueue (newPgStore True) sample_world = (Inr b, u)"
    by (simp add: BeginTransactionQueue_def begin_tx_ok)
  obtain e b' v where p: "push_all b ?ps u = (e, b', v)" by (cases "push_all b ?ps u") auto
  from transaction_is_atomic [OF newPgStore_tx(1) sample_world_simps(1) _ sample_world_simps(2) bg p] bg p
  show ?thesis by auto
qed

theorem addressed_failure_roundtrip_witness:
  "\<exists>u. QueueAddressedComplete Inr (newPgStore True) ''a'' (Some (External ''boom'')) sample_world = (None, u)
     \<and> fst (IsQueueAddressComplete Some (newPgStore True) ''a'' u) = (True, Some (QueueError ''boom''))"
  using addressed_failure_roundtrip [of Inr "\<lambda>m. m" Some "newPgStore True" sample_world "External ''boom''" "''a''"]
  by auto

theorem large_priority_overtakes_witness:
  "row_before (pushed_row 9 (benchQueueName, 0x8000000000000000, 7, JNull)) (pushed_row 1 (benchQueueName, 0, 7, JNull))"
  using large_priority_overtakes [of "0x8000000000000000" 0 9 benchQueueName 7 JNull 1 7 JNull "[]"] by simp

end
