(* ===== verification/Platlib_Adapter.thy ===== *)
theory Platlib_Adapter
  imports Harness_Interface Pg_Store_Facts
begin

text \<open>
  The platform-lib adapter (\<^verbatim>\<open>internal/queue/platlib/adapter.go\<close>): the harness life cycle, the work
  type and its JSON form, type codes, addresses, back-off and the retry policy of the runner. The
  store below it is theory \<open>Pg_Store\<close>. What platform-lib and google/uuid contribute (the
  \<^verbatim>\<open>DatabaseQueue\<close>, the agent, the broadcaster, \<^verbatim>\<open>uuid.Parse\<close>) is a parameter: a field of \<open>deps\<close>,
  \<open>start_env\<close>, \<open>new_env\<close> or \<open>stop_env\<close>. The worker functions act on a world \<open>'w\<close> of their own.
\<close>

section \<open>Work\<close>

record benchWork =
  WorkID :: uint64
  TenantIDStr :: string
  KindStr :: string
  bw_Attempt :: int
  bw_Payload :: JobPayload

text \<open>FNV-1a over the bytes of the kind, modulo \<open>2 ^ 64\<close>.\<close>

definition fnv_offset64 :: uint64 where "fnv_offset64 = 14695981039346656037"
definition fnv_prime64 :: uint64 where "fnv_prime64 = 1099511628211"

definition fnv_step :: "uint64 \<Rightarrow> char \<Rightarrow> uint64" where
  "fnv_step h c = xor h (of_nat (of_char c)) * fnv_prime64"

definition kindCode :: "Kind \<Rightarrow> uint64" where
  "kindCode k = foldl fnv_step fnv_offset64 k"

definition Type_benchWork :: "benchWork \<Rightarrow> uint64" where
  "Type_benchWork w = kindCode (KindStr w)"

definition Address_benchWork :: "benchWork \<Rightarrow> string" where
  "Address_benchWork w = ''bench:'' @ dec_of_nat (unat (WorkID w))"

definition Dir_benchWork :: "benchWork \<Rightarrow> string" where
  "Dir_benchWork w = ''''"

definition marshal_benchWork :: "benchWork \<Rightarrow> json" where
  "marshal_benchWork w =
     JObj [(''work_id'', JNum (of_nat (unat (WorkID w)))), (''tenant_id'', JStr (TenantIDStr w)),
           (''kind'', JStr (KindStr w)), (''attempt'', JNum (of_int (bw_Attempt w))),
           (''payload'', marshal_payload (bw_Payload w))]"

definition unmarshal_benchWork :: "json \<Rightarrow> goerr + benchWork" where
  "unmarshal_benchWork v =
     (case v of
        JObj ms \<Rightarrow>
          (case field_int 0 (2 ^ 64 - 1) (jget ms ''work_id'') of
             Inl e \<Rightarrow> Inl e
           | Inr i \<Rightarrow>
               (case field_str (jget ms ''tenant_id'') of
                  Inl e \<Rightarrow> Inl e
                | Inr t \<Rightarrow>
                    (case field_str (jget ms ''kind'') of
                       Inl e \<Rightarrow> Inl e
                     | Inr k \<Rightarrow>
                         (case field_int (- (2 ^ 31)) (2 ^ 31 - 1) (jget ms ''attempt'') of
                            Inl e \<Rightarrow> Inl e
                          | Inr a \<Rightarrow>
                              (case unmarshal_payload (jget ms ''payload'') of
                                 Inl e \<Rightarrow> Inl e
                               | Inr p \<Rightarrow> Inr \<lparr>WorkID = of_int i, TenantIDStr = t, KindStr = k,
                                   bw_Attempt = a, bw_Payload = p\<rparr>)))))
      | JNull \<Rightarrow> Inr \<lparr>WorkID = 0, TenantIDStr = '''', KindStr = '''', bw_Attempt = 0, bw_Payload = zero_payload\<rparr>
      | _ \<Rightarrow> Inl (External ''json: cannot unmarshal value''))"

definition wf_work :: "benchWork \<Rightarrow> bool" where
  "wf_work w \<longleftrightarrow> in_int32 (bw_Attempt w) \<and> wf_payload (bw_Payload w)"

text \<open>\<open>nextWorkID\<close>: \<^verbatim>\<open>workIDCounter.Add(1)\<close>, the counter is passed along.\<close>

definition nextWorkID :: "uint64 \<Rightarrow> uint64 \<times> uint64" where
  "nextWorkID c = (c + 1, c + 1)"

section \<open>The harness\<close>

type_synonym 'w WorkerFunc = "Context \<Rightarrow> Job \<Rightarrow> 'w \<Rightarrow> goerr option \<times> 'w"

record Options =
  DefaultPriority :: uint64
  UseAddressedPush :: bool
  BackoffFn :: "(int \<Rightarrow> Duration) option"

text \<open>
  \<open>agent\<close> and \<open>factory\<close> are \<open>None\<close> while the pointers are nil; an agent is known by the concurrency
  table it was given, a factory by the type codes added to it. \<open>retries\<close> are the works
  whose back-off goroutine waits. \<open>stopCh\<close> is whether the channel is closed.
\<close>

record 'w Harness =
  cfg :: Config
  opts :: Options
  workers :: "(Kind \<times> 'w WorkerFunc) list"
  started :: bool
  agent :: "(int \<times> int) list option"
  factory :: "(uint64 \<times> Kind) list option"
  stopCh :: bool
  pool_open :: bool
  lf_open :: bool
  retries :: "(benchWork \<times> Duration) list"

definition ExponentialBackoffRiverLike :: "int \<Rightarrow> Duration" where
  "ExponentialBackoffRiverLike nextAttempt =
     (let f0 = int32_of (nextAttempt - 1);
          f = if f0 < 1 then 1 else f0
      in int64_of (int64_of (int64_of (int64_of (f * f) * f) * f) * Second))"

text \<open>
  \<open>new_env\<close>: what the constructors of other packages answer while \<open>New\<close> runs. The last component of the
  result lists the calls of \<open>New\<close> that open or close a resource, in order.
\<close>

record new_env =
  connect_err :: "goerr option"
  broadcaster_err :: "goerr option"
  queue_err :: "goerr option"

datatype resource = Pool | Listener | ListenerFactory
datatype res_call = Opens resource | Closes resource

definition New_platlib ::
    "new_env \<Rightarrow> Config \<Rightarrow> Options \<Rightarrow> pg_world \<Rightarrow> (goerr + 'w Harness) \<times> pg_world \<times> res_call list" where
  "New_platlib env c o' w =
     (case Validate c of
        Some e \<Rightarrow> (Inl (Errorf ''platlib adapter: '' e), w, [])
      | None \<Rightarrow>
          let o2 = (if DefaultPriority o' = 0 then o'\<lparr>DefaultPriority := 10\<rparr> else o') in
          (case connect_err env of
             Some e \<Rightarrow> (Inl (Errorf ''platlib adapter: connect postgres: '' e), w, [])
           | None \<Rightarrow>
               (case applySchema w of
                  (Some e, u) \<Rightarrow> (Inl (Errorf ''platlib adapter: '' e), u, [Opens Pool, Closes Pool])
                | (None, u) \<Rightarrow>
                    let rs = [Opens Pool, Opens ListenerFactory, Opens Listener];
                        undo = [Closes Pool, Closes Listener, Closes ListenerFactory] in
                    (case broadcaster_err env of
                       Some e \<Rightarrow> (Inl (Errorf ''platlib adapter: new broadcaster: '' e), u, rs @ undo)
                     | None \<Rightarrow>
                         (case queue_err env of
                            Some e \<Rightarrow> (Inl (Errorf ''platlib adapter: new queue: '' e), u, rs @ undo)
                          | None \<Rightarrow>
                              (Inr \<lparr>cfg = c, opts = o2, workers = [], started = False, agent = None,
                                 factory = None, stopCh = False, pool_open = True, lf_open = True,
                                 retries = []\<rparr>, u, rs))))))"

text \<open>The resources left open by a list of calls.\<close>

fun still_open :: "res_call list \<Rightarrow> resource list \<Rightarrow> resource list" where
  "still_open [] rs = rs"
| "still_open (Opens r # cs) rs = still_open cs (r # rs)"
| "still_open (Closes r # cs) rs = still_open cs (removeAll r rs)"

definition Register_platlib :: "Kind \<Rightarrow> 'w WorkerFunc \<Rightarrow> 'w Harness \<Rightarrow> goerr option \<times> 'w Harness" where
  "Register_platlib kind fn h =
     (if started h then (Some (ErrorsNew ''platlib adapter: Register after Start''), h)
      else if map_of (workers h) kind \<noteq> None
      then (Some (ErrorQ ''platlib adapter: Kind '' kind '' already registered''), h)
      else (None, h\<lparr>workers := workers h @ [(kind, fn)]\<rparr>))"

text \<open>\<open>Concurrencies\<close> is \<^verbatim>\<open>agent.Concurrencies\<close>: an error, or the enforcer for the table.\<close>

definition Start_platlib ::
    "((int \<times> int) list \<Rightarrow> int list \<Rightarrow> goerr option) \<Rightarrow> 'w Harness \<Rightarrow> goerr option \<times> 'w Harness" where
  "Start_platlib Concurrencies h =
     (if started h then (Some (ErrorsNew ''platlib adapter: Start called twice''), h)
      else
        let h1 = h\<lparr>factory := Some (map (\<lambda>(kind, fn). (kindCode kind, kind)) (workers h))\<rparr>;
            pri = int64_of_uint64 (DefaultPriority (opts h));
            defaults = [(pri, totalWorkers (cfg h))]
        in case Concurrencies defaults [pri] of
             Some e \<Rightarrow> (Some (Errorf ''platlib adapter: concurrencies: '' e), h1)
           | None \<Rightarrow> (None, h1\<lparr>agent := Some defaults, started := True\<rparr>))"

text \<open>
  \<open>deps\<close>: \<^verbatim>\<open>uuid.UUID.String\<close>, \<^verbatim>\<open>uuid.Parse\<close> and the \<^verbatim>\<open>Push\<close> and \<^verbatim>\<open>AddressedPush\<close> of the queue, with the
  arguments priority, group id, (address,) work.
\<close>

record 'w deps =
  uuid_String :: "UUID \<Rightarrow> string"
  uuid_Parse :: "string \<Rightarrow> goerr + UUID"
  q_Push :: "Context \<Rightarrow> uint64 \<Rightarrow> int \<Rightarrow> benchWork \<Rightarrow> 'w \<Rightarrow> goerr option \<times> 'w"
  q_AddressedPush :: "Context \<Rightarrow> uint64 \<Rightarrow> int \<Rightarrow> string \<Rightarrow> benchWork \<Rightarrow> 'w \<Rightarrow> goerr option \<times> 'w"

definition Enqueue_platlib ::
    "'w deps \<Rightarrow> 'w Harness \<Rightarrow> Context \<Rightarrow> UUID \<Rightarrow> Kind \<Rightarrow> JobPayload \<Rightarrow> uint64 \<times> 'w
     \<Rightarrow> (goerr + JobID) \<times> uint64 \<times> 'w" where
  "Enqueue_platlib d h ctx tenantID kind p cw =
     (case cw of (ctr, w) \<Rightarrow>
      if \<not> started h then (Inl (ErrorsNew ''platlib adapter: Enqueue before Start''), ctr, w)
      else if map_of (workers h) kind = None
      then (Inl (ErrorQ ''platlib adapter: no worker registered for kind '' kind ''''), ctr, w)
      else case nextWorkID ctr of (workID, ctr') \<Rightarrow>
        let work = \<lparr>WorkID = workID, TenantIDStr = uuid_String d tenantID, KindStr = kind,
              bw_Attempt = 1, bw_Payload = p\<rparr>;
            addr = ''bench:'' @ dec_of_nat (unat workID)
        in if UseAddressedPush (opts h) then
             (case q_AddressedPush d ctx (DefaultPriority (opts h)) 0 addr work w of
                (Some e, w') \<Rightarrow> (Inl e, ctr', w')
              | (None, w') \<Rightarrow> (Inr addr, ctr', w'))
           else
             (case q_Push d ctx (DefaultPriority (opts h)) 0 work w of
                (Some e, w') \<Rightarrow> (Inl e, ctr', w')
              | (None, w') \<Rightarrow> (Inr addr, ctr', w')))"

text \<open>\<open>EnqueueMany\<close> returns the ids so far beside the error.\<close>

fun EnqueueMany_loop ::
    "'w deps \<Rightarrow> 'w Harness \<Rightarrow> Context \<Rightarrow> EnqueueRequest list \<Rightarrow> JobID list \<Rightarrow> uint64 \<times> 'w
     \<Rightarrow> (JobID list \<times> goerr option) \<times> uint64 \<times> 'w" where
  "EnqueueMany_loop d h ctx [] out cw = ((out, None), cw)"
| "EnqueueMany_loop d h ctx (j # js) out cw =
     (case Enqueue_platlib d h ctx (req_TenantID j) (req_Kind j) (req_Payload j) cw of
        (Inl e, cw') \<Rightarrow> ((out, Some e), cw')
      | (Inr i, cw') \<Rightarrow> EnqueueMany_loop d h ctx js (out @ [i]) cw')"

definition EnqueueMany_platlib ::
    "'w deps \<Rightarrow> 'w Harness \<Rightarrow> Context \<Rightarrow> EnqueueRequest list \<Rightarrow> uint64 \<times> 'w
     \<Rightarrow> (JobID list \<times> goerr option) \<times> uint64 \<times> 'w" where
  "EnqueueMany_platlib d h ctx jobs cw = EnqueueMany_loop d h ctx jobs [] cw"

definition Stats_platlib :: "'w Harness \<Rightarrow> Stats" where
  "Stats_platlib h = zero_Stats\<lparr>WorkersTotal := totalWorkers (cfg h)\<rparr>"

section \<open>Stopping\<close>

text \<open>
  After \<^verbatim>\<open>close(stopCh)\<close> every waiting back-off goroutine ends: it drops its retry, or pushes it when its
  timer has fired as well and the \<^verbatim>\<open>select\<close> takes that branch (\<open>fired\<close>). \<^verbatim>\<open>wg.Wait\<close> waits for all of them.
\<close>

fun drain_retries ::
    "'w deps \<Rightarrow> uint64 \<Rightarrow> bool list \<Rightarrow> (benchWork \<times> Duration) list \<Rightarrow> 'w \<Rightarrow> 'w" where
  "drain_retries d pri fired [] w = w"
| "drain_retries d pri [] ((b, t) # rs) w = drain_retries d pri [] rs w"
| "drain_retries d pri (f # fs) ((b, t) # rs) w =
     drain_retries d pri fs rs (if f then snd (q_Push d Background pri 0 b w) else w)"

text \<open>\<open>ag_Stop\<close> is what \<^verbatim>\<open>agent.Stop\<close> answers; the result of \<^verbatim>\<open>factory.Stop\<close> is dropped by the code.\<close>

definition Stop_platlib ::
    "'w deps \<Rightarrow> (Duration \<Rightarrow> goerr option) \<Rightarrow> bool list \<Rightarrow> 'w Harness \<Rightarrow> 'w
     \<Rightarrow> stop_result \<times> 'w Harness \<times> 'w" where
  "Stop_platlib d ag_Stop fired h w =
     (if \<not> started h then (Returned None, h\<lparr>pool_open := False\<rparr>, w)
      else
        let h1 = h\<lparr>started := False\<rparr> in
        if stopCh h then (Panicked ''close of closed channel'', h1, w)
        else
          let w1 = drain_retries d (DefaultPriority (opts h)) fired (retries h) w;
              h2 = h1\<lparr>stopCh := True, retries := []\<rparr>;
              err = (case agent h of None \<Rightarrow> None | Some a \<Rightarrow> ag_Stop (ShutdownTimeout (cfg h)))
          in case err of
               Some e \<Rightarrow>
                 if \<not> errors_is e ErrAgentStopTimeout
                 then (Returned (Some (Errorf ''platlib adapter: stop agent: '' e)), h2, w1)
                 else (Returned None, h2\<lparr>lf_open := False, pool_open := False\<rparr>, w1)
             | None \<Rightarrow> (Returned None, h2\<lparr>lf_open := False, pool_open := False\<rparr>, w1))"

section \<open>The runner\<close>

text \<open>
  The retry policy: what \<open>Run\<close> does once the worker has returned \<open>workerErr\<close> (the code from the
  comment \<^verbatim>\<open>Retry policy\<close> on).
\<close>

definition retry_policy ::
    "'w deps \<Rightarrow> Context \<Rightarrow> benchWork \<Rightarrow> goerr \<Rightarrow> 'w Harness \<Rightarrow> 'w \<Rightarrow> goerr option \<times> 'w Harness \<times> 'w" where
  "retry_policy d ctx bw workerErr h u =
     (if IsSimulatedError workerErr = Some ErrorPermanent then (Some workerErr, h, u)
      else if bw_Attempt bw \<ge> int32_of (MaxAttempts (cfg h)) then (Some workerErr, h, u)
      else
        let bw' = bw\<lparr>bw_Attempt := int32_of (bw_Attempt bw + 1)\<rparr>;
            delay = (case BackoffFn (opts h) of None \<Rightarrow> 0 | Some b \<Rightarrow> b (bw_Attempt bw'))
        in if BackoffFn (opts h) \<noteq> None \<and> delay > 0
           then (None, h\<lparr>retries := retries h @ [(bw', delay)]\<rparr>, u)
           else (case q_Push d ctx (DefaultPriority (opts h)) 0 bw' u of
                   (Some e, v) \<Rightarrow>
                     (Some (ErrorfOrig (''platlib runner: re-enqueue attempt ''
                          @ dec_of_int (bw_Attempt bw') @ '': '') e
                          ('' (original: '' @ error_text workerErr @ '')'')), h, v)
                 | (None, v) \<Rightarrow> (None, h, v)))"

text \<open>
  \<open>Run\<close> of \<^verbatim>\<open>benchRunner\<close>: \<open>work\<close> is the \<^verbatim>\<open>Work\<close> field of the row the agent hands over, \<open>now\<close> the clock.
\<close>

definition Run_platlib ::
    "'w deps \<Rightarrow> Context \<Rightarrow> int \<Rightarrow> json \<Rightarrow> 'w Harness \<Rightarrow> 'w \<Rightarrow> goerr option \<times> 'w Harness \<times> 'w" where
  "Run_platlib d ctx now work h w =
     (case unmarshal_benchWork work of
        Inl e \<Rightarrow> (Some (Errorf ''platlib runner: unmarshal: '' e), h, w)
      | Inr bw \<Rightarrow>
          (case uuid_Parse d (TenantIDStr bw) of
             Inl e \<Rightarrow> (Some (Errorf ''platlib runner: tenant id: '' e), h, w)
           | Inr tenantID \<Rightarrow>
               (case map_of (workers h) (KindStr bw) of
                  None \<Rightarrow> (Some (ErrorQ ''platlib runner: no worker registered for kind '' (KindStr bw) ''''), h, w)
                | Some fn \<Rightarrow>
                    (case fn ctx \<lparr>job_ID = Address_benchWork bw, job_TenantID = tenantID, job_Kind = KindStr bw,
                          job_Payload = bw_Payload bw, job_Attempt = bw_Attempt bw, EnqueuedAt = now\<rparr> w of
                       (None, u) \<Rightarrow> (None, h, u)
                     | (Some workerErr, u) \<Rightarrow> retry_policy d ctx bw workerErr h u))))"

text \<open>A back-off goroutine whose timer fires: its work is pushed, a push error is dropped.\<close>

fun retry_fires :: "'w deps \<Rightarrow> 'w Harness \<Rightarrow> 'w \<Rightarrow> 'w Harness \<times> 'w" where
  "retry_fires d h w =
     (case retries h of
        [] \<Rightarrow> (h, w)
      | (b, t) # rs \<Rightarrow> (h\<lparr>retries := rs\<rparr>, snd (q_Push d Background (DefaultPriority (opts h)) 0 b w)))"

section \<open>Notification plumbing\<close>

record chunkNote =
  cn_NotifyType :: uint8

definition Type_chunkNote :: "chunkNote \<Rightarrow> uint8" where
  "Type_chunkNote c = cn_NotifyType c"

definition Guid_chunkNote :: "chunkNote \<Rightarrow> string" where
  "Guid_chunkNote c = ''''"

definition Match_noChunkMatcher :: "'n \<Rightarrow> string \<Rightarrow> bool" where
  "Match_noChunkMatcher n address = False"

definition Notify_localNotifier :: "string \<Rightarrow> queueDbNote \<Rightarrow> pg_world \<Rightarrow> goerr option \<times> pg_world" where
  "Notify_localNotifier ch n w = (None, w\<lparr>notified := notified w @ [(ch, n)]\<rparr>)"

text \<open>The operations on a harness, and what they keep.\<close>

datatype 'w harness_op =
    OpRegister Kind "'w WorkerFunc"
  | OpStart "(int \<times> int) list \<Rightarrow> int list \<Rightarrow> goerr option"
  | OpStop "Duration \<Rightarrow> goerr option" "bool list"
  | OpRun Context int json
  | OpTimer

fun run_harness_op :: "'w deps \<Rightarrow> 'w harness_op \<Rightarrow> 'w Harness \<times> 'w \<Rightarrow> 'w Harness \<times> 'w" where
  "run_harness_op d (OpRegister k f) (h, w) = (snd (Register_platlib k f h), w)"
| "run_harness_op d (OpStart c) (h, w) = (snd (Start_platlib c h), w)"
| "run_harness_op d (OpStop a fs) (h, w) = snd (Stop_platlib d a fs h w)"
| "run_harness_op d (OpRun ctx now j) (h, w) = snd (Run_platlib d ctx now j h w)"
| "run_harness_op d OpTimer (h, w) = retry_fires d h w"

definition platlib_inv :: "'w Harness \<Rightarrow> bool" where
  "platlib_inv h \<longleftrightarrow> distinct (map fst (workers h))
     \<and> (started h \<longrightarrow> factory h = Some (map (\<lambda>(k, f). (kindCode k, k)) (workers h))
          \<and> agent h = Some [(int64_of_uint64 (DefaultPriority (opts h)), totalWorkers (cfg h))])
     \<and> (\<forall>(b, t) \<in> set (retries h). 0 < t)"

text \<open>The job id the \<open>i\<close>-th call after counter value \<open>ctr\<close> gets.\<close>

definition job_id_at :: "uint64 \<Rightarrow> nat \<Rightarrow> JobID" where
  "job_id_at ctr i = ''bench:'' @ dec_of_nat (unat (ctr + of_nat i))"

text \<open>A harness and dependencies for the witnesses: a push adds the work to a list, a worker fails always.\<close>

definition list_deps :: "benchWork list deps" where
  "list_deps = \<lparr>uuid_String = (\<lambda>u. dec_of_nat (unat u)), uuid_Parse = (\<lambda>s. Inr (of_nat (nat_of_dec s))),
     q_Push = (\<lambda>ctx pri g b w. (None, w @ [b])), q_AddressedPush = (\<lambda>ctx pri g a b w. (None, w @ [b]))\<rparr>"

definition sample_config :: Config where
  "sample_config = \<lparr>PostgresURL = ''postgres://localhost/bench'', Queues = [(''default'', \<lparr>MaxWorkers = 4\<rparr>)],
     MaxAttempts = 400, ShutdownTimeout = 5 * Second\<rparr>"

definition sample_harness :: "(int \<Rightarrow> Duration) option \<Rightarrow> bool \<Rightarrow> benchWork list Harness" where
  "sample_harness b run = \<lparr>cfg = sample_config, opts = \<lparr>DefaultPriority = 10, UseAddressedPush = False, BackoffFn = b\<rparr>,
     workers = (if run then [(''k'', \<lambda>ctx job w. (Some (External ''boom''), w))] else []), started = run,
     agent = (if run then Some [(10, 4)] else None), factory = (if run then Some [(kindCode ''k'', ''k'')] else None),
     stopCh = False, pool_open = True, lf_open = True, retries = []\<rparr>"

definition sample_work :: "int \<Rightarrow> benchWork" where
  "sample_work a = \<lparr>WorkID = 5, TenantIDStr = ''7'', KindStr = ''k'', bw_Attempt = a,
     bw_Payload = \<lparr>WorkMillis = 20, Bytes = Some [1, 2], FailWithError = ''transient'', pl_Attempt = 0\<rparr>\<rparr>"


section \<open>Facts\<close>

lemma Register_platlib_inv: "platlib_inv h \<Longrightarrow> platlib_inv (snd (Register_platlib k f h))"
  by (auto simp: platlib_inv_def Register_platlib_def map_of_eq_None_iff)

lemma Start_platlib_inv: "platlib_inv h \<Longrightarrow> platlib_inv (snd (Start_platlib c h))"
  by (auto simp: platlib_inv_def Start_platlib_def Let_def split: option.split)

lemma Stop_platlib_inv: "platlib_inv h \<Longrightarrow> platlib_inv (fst (snd (Stop_platlib d a fs h w)))"
  by (auto simp: platlib_inv_def Stop_platlib_def Let_def split: option.splits)

text \<open>A run changes nothing of the harness but the waiting retries, to which it may add one.\<close>

lemma retry_policy_harness:
  "\<exists>bs. fst (snd (retry_policy d ctx bw e h u)) = h\<lparr>retries := retries h @ bs\<rparr> \<and> (\<forall>(b, t) \<in> set bs. 0 < t)"
proof -
  have self: "\<exists>bs. h = h\<lparr>retries := retries h @ bs\<rparr> \<and> (\<forall>(b, t) \<in> set bs. 0 < t)"
    by (rule exI [of _ "[]"]) simp
  have add: "\<exists>bs. h\<lparr>retries := retries h @ [(b, t)]\<rparr> = h\<lparr>retries := retries h @ bs\<rparr> \<and> (\<forall>(b, t) \<in> set bs. 0 < t)"
    if "0 < t" for b :: benchWork and t :: int
    using that by (intro exI [of _ "[(b, t)]"]) simp
  show ?thesis
    unfolding retry_policy_def Let_def by (simp add: self add split: option.split prod.split)
qed

lemma Run_platlib_harness:
  "\<exists>bs. fst (snd (Run_platlib d ctx now j h w)) = h\<lparr>retries := retries h @ bs\<rparr> \<and> (\<forall>(b, t) \<in> set bs. 0 < t)"
proof -
  have self: "\<exists>bs. h = h\<lparr>retries := retries h @ bs\<rparr> \<and> (\<forall>(b, t) \<in> set bs. 0 < t)"
    by (rule exI [of _ "[]"]) simp
  show ?thesis
    unfolding Run_platlib_def by (simp add: self retry_policy_harness split: sum.split option.split prod.split)
qed

lemma Run_platlib_inv: "platlib_inv h \<Longrightarrow> platlib_inv (fst (snd (Run_platlib d ctx now j h w)))"
  using Run_platlib_harness [of d ctx now j h w] by (auto simp: platlib_inv_def)

lemma retry_fires_inv: "platlib_inv h \<Longrightarrow> platlib_inv (fst (retry_fires d h w))"
  by (auto simp: platlib_inv_def split: list.split prod.split)

interpretation platlib_runs: invariant_system "run_harness_op d" "\<lambda>(h, w). platlib_inv h" for d :: "'w deps"
proof
  fix s :: "'w Harness \<times> 'w" and x
  assume "case s of (h, w) \<Rightarrow> platlib_inv h"
  then show "case run_harness_op d x s of (h, w) \<Rightarrow> platlib_inv h"
    by (cases s; cases x)
       (simp_all add: Register_platlib_inv Start_platlib_inv Stop_platlib_inv Run_platlib_inv
          retry_fires_inv case_prod_beta del: retry_fires.simps)
qed

interpretation platlib_harness: harness Register_platlib "Start_platlib c" started "\<lambda>h. map_of (workers h)"
  for c :: "(int \<times> int) list \<Rightarrow> int list \<Rightarrow> goerr option"
proof
  fix h :: "'w Harness" and k f
  show "started h \<or> map_of (workers h) k \<noteq> None \<Longrightarrow> \<exists>e. Register_platlib k f h = (Some e, h)"
    by (auto simp: Register_platlib_def)
  show "\<not> started h \<Longrightarrow> map_of (workers h) k = None \<Longrightarrow>
      \<exists>h'. Register_platlib k f h = (None, h') \<and> \<not> started h' \<and> map_of (workers h') = (map_of (workers h))(k \<mapsto> f)"
    by (auto simp: Register_platlib_def map_add_def fun_eq_iff split: option.split)
  show "started h \<Longrightarrow> \<exists>e. Start_platlib c h = (Some e, h)"
    by (auto simp: Start_platlib_def)
  fix h'
  show "Start_platlib c h = (None, h') \<Longrightarrow> started h' \<and> map_of (workers h') = map_of (workers h)"
    by (auto simp: Start_platlib_def Let_def split: if_splits option.splits)
qed

lemma Dropped_retries: "\<forall>f \<in> set fs. \<not> f \<Longrightarrow> drain_retries d pri fs rs w = w"
  by (induction d pri fs rs w rule: drain_retries.induct) auto

lemma fourth_power_bound: "1 \<le> (f::int) \<Longrightarrow> f \<le> 309 \<Longrightarrow> f * f * f * f \<le> 9116621361"
proof -
  assume f: "1 \<le> f" "f \<le> 309"
  have ff: "f * f \<le> 309 * 309" using f by (intro mult_mono) auto
  have "(f * f) * (f * f) \<le> (309 * 309) * (309 * 309)" by (rule mult_mono [OF ff ff]) (use f in auto)
  then show ?thesis by (simp add: mult.assoc)
qed

lemma benchWork_roundtrip':
  assumes "wf_work w"
  shows "unmarshal_benchWork (marshal_benchWork w) = Inr w"
proof -
  have id: "field_int 0 (2 ^ 64 - 1) (Some (JNum (of_nat (unat (WorkID w))))) = Inr (int (unat (WorkID w)))"
    using field_simps(1) [of 0 "int (unat (WorkID w))" "2 ^ 64 - 1"] uint_lt2p [of "WorkID w"]
    by simp
  show ?thesis
    using assms id unmarshal_marshal_payload [of "bw_Payload w"]
    by (simp add: unmarshal_benchWork_def marshal_benchWork_def wf_work_def in_int32_def)
qed

text \<open>C29: A work item survives the trip through the queue table: what \<open>Run\<close> decodes is what \<open>Enqueue\<close> or a
  retry encoded, for every work id, attempt and payload the Go types can hold.\<close>

theorem benchWork_roundtrip:
  assumes "wf_work w"
  shows "unmarshal_benchWork (marshal_benchWork w) = Inr w"
  using assms by (rule benchWork_roundtrip')

text \<open>The River-like back-off is \<open>(n - 1) ^ 4\<close> seconds for the attempts 2 to 310, so it grows strictly
  there, and attempts below 2 wait one second.\<close>

theorem backoff_is_fourth_power:
  assumes "in_int32 n" and "n \<le> 310" and "n \<noteq> - (2 ^ 31)"
  shows "ExponentialBackoffRiverLike n = (max 1 (n - 1)) ^ 4 * Second"
proof -
  define f where "f = max 1 (n - 1)"
  have f: "1 \<le> f" "f \<le> 309" using assms by (auto simp: f_def)
  have "int32_of (n - 1) = n - 1" using assms by (intro int32_of_id) (auto simp: in_int32_def)
  then have g: "(if int32_of (n - 1) < 1 then 1 else int32_of (n - 1)) = f" by (auto simp: f_def)
  have p2: "f * f \<le> 309 * 309" "1 \<le> f * f" using f mult_mono [of f 309 f 309] mult_mono [of 1 f 1 f] by auto
  have p3: "f * f * f \<le> 309 * 309 * 309" "1 \<le> f * f * f" using p2 f mult_mono [of "f * f" "309 * 309" f 309] mult_mono [of 1 "f * f" 1 f] by auto
  have p4: "f * f * f * f \<le> 9116621361" "1 \<le> f * f * f * f"
    using fourth_power_bound [OF f] p3(2) f mult_mono [of 1 "f * f * f" 1 f] by auto
  have "ExponentialBackoffRiverLike n = f * f * f * f * Second"
    unfolding ExponentialBackoffRiverLike_def Let_def g
    using p2 p3 p4 by (simp add: int64_of_id in_int64_def Second_def)
  then show ?thesis by (simp add: f_def [symmetric] power4_eq_xxxx)
qed

theorem backoff_is_fourth_power_witness:
  "in_int32 3 \<and> ExponentialBackoffRiverLike 3 = 16 * Second"
  using backoff_is_fourth_power [of 3] by (simp add: in_int32_def)

text \<open>C39: The back-off of attempt 311 overflows the 64-bit duration and is negative, so the retry that
  should wait 106 days is pushed at once.\<close>

theorem backoff_overflows:
  assumes "BackoffFn (opts h) = Some ExponentialBackoffRiverLike" and "bw_Attempt bw = 310"
    and "310 < MaxAttempts (cfg h)" and "MaxAttempts (cfg h) < 2 ^ 31" and "IsSimulatedError e = None"
    and "q_Push d ctx (DefaultPriority (opts h)) 0 (bw\<lparr>bw_Attempt := 311\<rparr>) u = (None, v)"
  shows "ExponentialBackoffRiverLike 311 < 0 \<and> retry_policy d ctx bw e h u = (None, h, v)"
proof -
  have 1: "ExponentialBackoffRiverLike 311 = - 9211534073709551616"
    by code_simp
  have 2: "int32_of (MaxAttempts (cfg h)) = MaxAttempts (cfg h)" "int32_of (310 + 1) = 311"
    using assms(3,4) by (simp_all add: in_int32_def)
  have "retry_policy d ctx bw e h u = (None, h, v)"
    unfolding retry_policy_def Let_def assms(2) 2
    using assms(1,3,5,6) 1 by simp
  with 1 show ?thesis by simp
qed


text \<open>C18: Any sequence of \<open>Register\<close>, \<open>Start\<close>, \<open>Stop\<close>, \<open>Run\<close> calls and back-off timers keeps the harness
  consistent: one worker per kind; while it is started, the runner factory knows the type code of exactly the
  registered kinds and the agent has the total of the configured worker slots; a waiting retry has a positive delay.\<close>

theorem platlib_runs_keep_invariant:
  assumes "platlib_inv h"
  shows "platlib_inv (fst (fold (run_harness_op d) ops (h, w)))"
  using platlib_runs.run_inv [of "(h, w)" d ops] assms by (simp add: case_prod_beta)

text \<open>A harness that is set up with workers of distinct kinds and started runs exactly these workers: every
  registration is accepted, and no later \<open>Register\<close> changes the table.\<close>

theorem platlib_started_workers:
  assumes "\<not> started h" and "workers h = []" and "distinct (map fst ws)"
    and "register_all Register_platlib ws h = (e, h1)" and "Start_platlib c h1 = (None, h2)"
    and "register_all Register_platlib late h2 = (e', h3)"
  shows "e = None \<and> started h3 \<and> map_of (workers h3) = map_of ws"
  using platlib_harness.started_workers [OF assms(1) _ assms(3-6)] assms(2) by simp

text \<open>A harness that is stopped and started again cannot be stopped: the second \<open>Stop\<close> closes a closed
  channel, which panics.\<close>

theorem Stop_after_restart_panics:
  assumes "started h" and "\<not> stopCh h" and "Stop_platlib d ag fs h w = (Returned err, h1, w1)"
    and "Start_platlib c h1 = (None, h2)"
  shows "Stop_platlib d ag fs' h2 w2 = (Panicked ''close of closed channel'', h2\<lparr>started := False\<rparr>, w2)"
proof -
  have h1: "stopCh h1" "\<not> started h1"
    using assms(1-3) by (auto simp: Stop_platlib_def Let_def split: option.splits if_splits)
  then have "stopCh h2" "started h2"
    using assms(4) by (auto simp: Start_platlib_def Let_def split: option.splits if_splits)
  then show ?thesis by (simp add: Stop_platlib_def)
qed

text \<open>C37: \<open>Stop\<close> of a running harness whose agent stops in time or times out releases everything and leaves no
  retry behind; retries still waiting for their back-off are dropped, not pushed. A stop error of
  the agent other than its time-out is returned and leaves the pool open.\<close>

theorem Stop_platlib_releases:
  assumes "started h" and "\<not> stopCh h" and "agent h = Some a" and "\<forall>f \<in> set fs. \<not> f"
  shows "\<exists>h'. Stop_platlib d ag fs h w =
      (Returned (case ag (ShutdownTimeout (cfg h)) of
         None \<Rightarrow> None
       | Some e \<Rightarrow> if errors_is e ErrAgentStopTimeout then None else Some (Errorf ''platlib adapter: stop agent: '' e)), h', w)
    \<and> \<not> started h' \<and> retries h' = []
    \<and> (pool_open h' \<longleftrightarrow> pool_open h \<and> (\<exists>e. ag (ShutdownTimeout (cfg h)) = Some e \<and> \<not> errors_is e ErrAgentStopTimeout))"
  using assms Dropped_retries [OF assms(4), of d "DefaultPriority (opts h)" "retries h" w]
  by (auto simp: Stop_platlib_def Let_def split: option.split)

lemma Enqueue_platlib_result:
  "Enqueue_platlib d h ctx t k p (ctr, w) = (res, ctr', w') \<Longrightarrow>
   (res = Inr (job_id_at ctr 1) \<and> ctr' = ctr + 1) \<or> (\<exists>e. res = Inl e)"
  by (auto simp: Enqueue_platlib_def nextWorkID_def Let_def job_id_at_def split: if_splits prod.splits option.splits)

lemma job_id_at_add: "job_id_at (ctr + 1) i = job_id_at ctr (Suc i)"
  by (simp add: job_id_at_def add.assoc)

lemma EnqueueMany_loop_ids:
  "EnqueueMany_loop d h ctx js out (ctr, w) = ((out', e), cw) \<Longrightarrow>
   \<exists>n \<le> length js. out' = out @ map (job_id_at ctr) [1..<Suc n] \<and> (e = None \<longleftrightarrow> n = length js)"
proof (induction js arbitrary: out ctr w)
  case Nil
  then show ?case by simp
next
  case (Cons j js)
  obtain res ctr' w' where r: "Enqueue_platlib d h ctx (req_TenantID j) (req_Kind j) (req_Payload j) (ctr, w) = (res, ctr', w')"
    by (metis prod_cases3)
  from Enqueue_platlib_result [OF r] show ?case
  proof
    assume ok: "res = Inr (job_id_at ctr 1) \<and> ctr' = ctr + 1"
    with Cons.prems r have "EnqueueMany_loop d h ctx js (out @ [job_id_at ctr 1]) (ctr + 1, w') = ((out', e), cw)" by simp
    from Cons.IH [OF this] obtain n where n: "n \<le> length js" "e = None \<longleftrightarrow> n = length js"
      "out' = (out @ [job_id_at ctr 1]) @ map (job_id_at (ctr + 1)) [1..<Suc n]" by blast
    have "map (job_id_at (ctr + 1)) [1..<Suc n] = map (job_id_at ctr) [2..<Suc (Suc n)]"
      by (simp add: job_id_at_add map_Suc_upt [symmetric] comp_def numeral_2_eq_2 del: upt_Suc)
    then have "out' = out @ map (job_id_at ctr) [1..<Suc (Suc n)]"
      using n(3) upt_conv_Cons [of 1 "Suc (Suc n)"] by (simp add: numeral_2_eq_2 del: upt_Suc)
    with n show ?thesis by (intro exI [of _ "Suc n"]) simp
  next
    assume "\<exists>er. res = Inl er"
    with Cons.prems r show ?thesis by (intro exI [of _ 0]) auto
  qed
qed

lemma job_id_at_inj: "inj_on (job_id_at ctr) {i. i < 2 ^ 64}"
proof (rule inj_onI)
  fix i j :: nat
  assume ij: "i \<in> {i. i < 2 ^ 64}" "j \<in> {i. i < 2 ^ 64}" "job_id_at ctr i = job_id_at ctr j"
  then have "(of_nat i :: uint64) = of_nat j"
    by (simp add: job_id_at_def word_unat_eq_iff [symmetric])
  then have "unat (of_nat i :: uint64) = unat (of_nat j :: uint64)" by simp
  with ij(1,2) show "i = j" by (simp add: unat_of_nat)
qed

lemma EnqueueMany_fresh_ids:
  assumes "EnqueueMany_platlib d h ctx jobs (ctr, w) = ((out, e), cw)" and "length jobs < 2 ^ 64 - 1"
  shows "out = map (job_id_at ctr) [1..<Suc (length out)] \<and> distinct out \<and> job_id_at ctr 0 \<notin> set out
    \<and> length out \<le> length jobs \<and> (e = None \<longleftrightarrow> length out = length jobs)"
proof -
  obtain n where n: "n \<le> length jobs" "out = map (job_id_at ctr) [1..<Suc n]" "e = None \<longleftrightarrow> n = length jobs"
    using EnqueueMany_loop_ids [of d h ctx jobs "[]" ctr w out e cw] assms(1) by (auto simp: EnqueueMany_platlib_def)
  have sub: "set [0..<Suc n] \<subseteq> {i. i < 2 ^ 64}" using n(1) assms(2) by auto
  have "distinct (map (job_id_at ctr) [0..<Suc n])"
    using inj_on_subset [OF job_id_at_inj sub] by (simp add: distinct_map del: upt_Suc)
  moreover have "[0..<Suc n] = 0 # [1..<Suc n]" using upt_conv_Cons [of 0 "Suc n"] by simp
  ultimately have "distinct out \<and> job_id_at ctr 0 \<notin> set out"
    using n(2) by (simp del: upt_Suc)
  then show ?thesis using n by (simp del: upt_Suc)
qed


theorem benchWork_roundtrip_witness: "unmarshal_benchWork (marshal_benchWork (sample_work 3)) = Inr (sample_work 3)"
  using benchWork_roundtrip [of "sample_work 3"] by (simp add: sample_work_def wf_work_def wf_payload_def in_int32_def in_int64_def)

theorem backoff_overflows_witness:
  "retry_policy list_deps Background (sample_work 310) (External ''boom'') (sample_harness (Some ExponentialBackoffRiverLike) True) []
   = (None, sample_harness (Some ExponentialBackoffRiverLike) True, [(sample_work 311)])"
  using backoff_overflows [of "sample_harness (Some ExponentialBackoffRiverLike) True" "sample_work 310" "External ''boom''"
      list_deps Background "[]" "[sample_work 311]"]
  by (simp add: sample_harness_def sample_config_def sample_work_def list_deps_def IsSimulatedError_def)

lemma sample_harness_inv: "platlib_inv (sample_harness b r)"
  by (simp add: platlib_inv_def sample_harness_def sample_config_def totalWorkers_def int64_of_uint64_def in_int64_def)

theorem platlib_runs_keep_invariant_witness:
  "platlib_inv (fst (fold (run_harness_op list_deps) [OpRun Background 0 (marshal_benchWork (sample_work 1)), OpTimer,
      OpStop (\<lambda>t. None) [], OpStart (\<lambda>t p. None)] (sample_harness (Some ExponentialBackoffRiverLike) True, [])))"
  by (rule platlib_runs_keep_invariant [OF sample_harness_inv])

theorem platlib_started_workers_witness:
  "\<exists>h1 h2. register_all Register_platlib [(''a'', \<lambda>ctx job w. (None, w)), (''b'', \<lambda>ctx job w. (None, w))] (sample_harness None False) = (None, h1)
     \<and> Start_platlib (\<lambda>t p. None) h1 = (None, h2)
     \<and> map_of (workers (snd (register_all Register_platlib [(''c'', \<lambda>ctx job w. (None, w))] h2))) ''c'' = None"
proof -
  let ?ws = "[(''a'', \<lambda>ctx job w. (None, w)), (''b'', \<lambda>ctx job w. (None, w))] :: (Kind \<times> benchWork list WorkerFunc) list"
  let ?late = "[(''c'', \<lambda>ctx job w. (None, w))] :: (Kind \<times> benchWork list WorkerFunc) list"
  obtain h1 where h1: "register_all Register_platlib ?ws (sample_harness None False) = (None, h1)"
    by (simp add: Register_platlib_def sample_harness_def)
  obtain h2 where h2: "Start_platlib (\<lambda>t p. None) h1 = (None, h2)"
    using h1 by (auto simp: Start_platlib_def Register_platlib_def sample_harness_def)
  obtain e' h3 where h3: "register_all Register_platlib ?late h2 = (e', h3)" by fastforce
  show ?thesis
    using platlib_started_workers [OF _ _ _ h1 h2 h3] h1 h2 h3 by (simp add: sample_harness_def)
qed

theorem Stop_after_restart_panics_witness:
  "\<exists>h1 h2. Stop_platlib list_deps (\<lambda>t. None) [] (sample_harness None True) [] = (Returned None, h1, [])
     \<and> Start_platlib (\<lambda>t p. None) h1 = (None, h2)
     \<and> fst (Stop_platlib list_deps (\<lambda>t. None) [] h2 []) = Panicked ''close of closed channel''"
proof -
  obtain h1 where h1: "Stop_platlib list_deps (\<lambda>t. None) [] (sample_harness None True) [] = (Returned None, h1, [])"
    by (simp add: Stop_platlib_def sample_harness_def)
  then have "\<not> started h1" by (auto simp: Stop_platlib_def sample_harness_def)
  then obtain h2 where h2: "Start_platlib (\<lambda>t p. None) h1 = (None, h2)"
    by (auto simp: Start_platlib_def Let_def)
  have "started (sample_harness None True)" "\<not> stopCh (sample_harness None True)" by (simp_all add: sample_harness_def)
  from Stop_after_restart_panics [OF this h1 h2, of "[]" "[]"] h1 h2 show ?thesis by auto
qed

theorem Stop_platlib_releases_witness:
  "\<exists>h'. Stop_platlib list_deps (\<lambda>t. Some ErrAgentStopTimeout) [] ((sample_harness None True)\<lparr>retries := [(sample_work 2, Second)]\<rparr>) []
     = (Returned None, h', []) \<and> retries h' = [] \<and> \<not> pool_open h'"
  using Stop_platlib_releases [of "(sample_harness None True)\<lparr>retries := [(sample_work 2, Second)]\<rparr>" "[(10, 4)]" "[]"
      list_deps "\<lambda>t. Some ErrAgentStopTimeout" "[]"]
  by (auto simp: sample_harness_def)


end
