(* ===== verification/Store_Concurrency.thy ===== *)
theory Store_Concurrency
  imports Pg_Store_Facts
begin

text \<open>
  Many workers popping from one store at the same time. The atomic actions are the SQL statements
  of \<open>QueuePop\<close> (precount, begin, permit, claim, commit) as theory \<open>Pg_Store\<close> defines them; a step is
  one statement of one worker, a push by anybody, or the deletion that ends a worker's work, and
  the steps of different workers interleave freely. The database is healthy (no statement fails);
  what a failed commit does is shown in \<open>Pg_Store_Facts\<close>. The bound in the permit step is the
  end of the \<^verbatim>\<open>BIGSERIAL\<close> sequence, where the database refuses to go on.
\<close>

section \<open>Workers and steps\<close>

text \<open>Where a worker is in \<open>QueuePop\<close>; \<open>Holding p r\<close> is a worker running the row \<open>r\<close> under permit \<open>p\<close>.\<close>

datatype phase =
    Idle
  | Counted
  | Began nat
  | Permitted nat int
  | Claimed nat int queue_row
  | Holding int queue_row

fun phase_tx :: "phase \<Rightarrow> nat option" where
  "phase_tx (Began t) = Some t"
| "phase_tx (Permitted t p) = Some t"
| "phase_tx (Claimed t p r) = Some t"
| "phase_tx ph = None"

fun phase_log :: "phase \<Rightarrow> dml list" where
  "phase_log (Permitted t p) = [InsPermit p]"
| "phase_log (Claimed t p r) = [InsPermit p, SetPermit (row_id r) p]"
| "phase_log ph = []"

fun phase_permit :: "phase \<Rightarrow> int option" where
  "phase_permit (Permitted t p) = Some p"
| "phase_permit (Claimed t p r) = Some p"
| "phase_permit (Holding p r) = Some p"
| "phase_permit ph = None"

fun phase_row :: "phase \<Rightarrow> queue_row option" where
  "phase_row (Claimed t p r) = Some r"
| "phase_row (Holding p r) = Some r"
| "phase_row ph = None"

text \<open>\<open>accepted\<close> and \<open>finished\<close> record the ids of the rows pushed and of the rows worked off.\<close>

record conc =
  db :: pg_world
  wk :: "nat \<Rightarrow> phase"
  accepted :: "int list"
  finished :: "int list"

definition pop_store :: "nat \<Rightarrow> pgStore" where
  "pop_store t = \<lparr>tx = Some t, notifier = True, pendingNotifications = []\<rparr>"

definition init_conc :: conc where
  "init_conc = \<lparr>db = empty_world, wk = (\<lambda>i. Idle), accepted = [], finished = []\<rparr>"

text \<open>\<open>cfg i\<close> is the queue name, priority bound and types worker \<open>i\<close> pops with.\<close>

inductive conc_step :: "(nat \<Rightarrow> string \<times> uint64 \<times> uint64 list) \<Rightarrow> conc \<Rightarrow> conc \<Rightarrow> bool"
  for cfg :: "nat \<Rightarrow> string \<times> uint64 \<times> uint64 list" where
  push: "QueuePush (newPgStore True) name g pri wt (Inr item) c (db s) = (None, s', w) \<Longrightarrow>
     conc_step cfg s (s\<lparr>db := w, accepted := queue_id_seq w # accepted s\<rparr>)"
| push_addressed: "QueuePushAddressed (newPgStore True) name g pri wt a (Inr item) c (db s) = (e, s', w) \<Longrightarrow>
     conc_step cfg s (s\<lparr>db := w, accepted := (if e = None then queue_id_seq w # accepted s else accepted s)\<rparr>)"
| count: "wk s i = Idle \<Longrightarrow> cfg i = (name, mp, ts) \<Longrightarrow> ts \<noteq> [] \<Longrightarrow>
     pop_precount (newPgStore True) name mp ts (db s) = (Inr cnt, w) \<Longrightarrow> cnt \<noteq> 0 \<Longrightarrow>
     conc_step cfg s (s\<lparr>db := w, wk := (wk s)(i := Counted)\<rparr>)"
| start: "wk s i = Counted \<Longrightarrow> begin_tx (db s) = (Inr t, w) \<Longrightarrow>
     conc_step cfg s (s\<lparr>db := w, wk := (wk s)(i := Began t)\<rparr>)"
| permit: "wk s i = Began t \<Longrightarrow> permits_id_seq (db s) + 1 < 2 ^ 63 \<Longrightarrow>
     pop_permit (pop_store t) (db s) = (Inr p, w) \<Longrightarrow>
     conc_step cfg s (s\<lparr>db := w, wk := (wk s)(i := Permitted t p)\<rparr>)"
| claim: "wk s i = Permitted t p \<Longrightarrow> cfg i = (name, mp, ts) \<Longrightarrow>
     pop_claim (pop_store t) p name mp ts (db s) = (Inr r, w) \<Longrightarrow>
     conc_step cfg s (s\<lparr>db := w, wk := (wk s)(i := Claimed t p r)\<rparr>)"
| miss: "wk s i = Permitted t p \<Longrightarrow> cfg i = (name, mp, ts) \<Longrightarrow>
     pop_claim (pop_store t) p name mp ts (db s) = (Inl ErrNoRows, w) \<Longrightarrow>
     exec (pop_store t) (DelPermit p) w = (e, u) \<Longrightarrow>
     conc_step cfg s (s\<lparr>db := rollback_tx t u, wk := (wk s)(i := Idle)\<rparr>)"
| commit: "wk s i = Claimed t p r \<Longrightarrow> commit_tx t (db s) = (None, w) \<Longrightarrow>
     conc_step cfg s (s\<lparr>db := w, wk := (wk s)(i := Holding p r)\<rparr>)"
| finish: "wk s i = Holding p r \<Longrightarrow>
     QueueDelete (newPgStore True) (Permit (work_of p r)) (db s) = (None, s', w) \<Longrightarrow>
     conc_step cfg s (s\<lparr>db := w, wk := (wk s)(i := Idle), finished := row_id r # finished s\<rparr>)"

inductive conc_reachable :: "(nat \<Rightarrow> string \<times> uint64 \<times> uint64 list) \<Rightarrow> conc \<Rightarrow> bool"
  for cfg :: "nat \<Rightarrow> string \<times> uint64 \<times> uint64 list" where
  init: "conc_reachable cfg init_conc"
| step: "conc_reachable cfg s \<Longrightarrow> conc_step cfg s t \<Longrightarrow> conc_reachable cfg t"

section \<open>The invariant\<close>

definition db_ok :: "pg_world \<Rightarrow> bool" where
  "db_ok w \<longleftrightarrow> store_inv w \<and> faults w = [] \<and> permits_id_seq w < 2 ^ 63"

definition inv_tx :: "conc \<Rightarrow> bool" where
  "inv_tx s \<longleftrightarrow>
     (\<forall>i t. phase_tx (wk s i) = Some t \<longrightarrow>
        map_of (open_txs (db s)) t = Some \<lparr>tx_log = phase_log (wk s i), tx_aborted = False\<rparr>)
     \<and> (\<forall>i j t. phase_tx (wk s i) = Some t \<longrightarrow> phase_tx (wk s j) = Some t \<longrightarrow> i = j)"

definition inv_permit :: "conc \<Rightarrow> bool" where
  "inv_permit s \<longleftrightarrow>
     (\<forall>i p. phase_permit (wk s i) = Some p \<longrightarrow> 0 < p \<and> p \<le> permits_id_seq (db s))
     \<and> (\<forall>i j p. phase_permit (wk s i) = Some p \<longrightarrow> phase_permit (wk s j) = Some p \<longrightarrow> i = j)"

definition inv_claim :: "conc \<Rightarrow> bool" where
  "inv_claim s \<longleftrightarrow>
     (\<forall>i t p r. wk s i = Claimed t p r \<longrightarrow> r \<in> set (queue (pool (db s))) \<and> row_permit r = 0)
     \<and> (\<forall>i p r. wk s i = Holding p r \<longrightarrow> r\<lparr>row_permit := p\<rparr> \<in> set (queue (pool (db s))))
     \<and> (\<forall>i j t p r t' p' q. wk s i = Claimed t p r \<longrightarrow> wk s j = Claimed t' p' q \<longrightarrow> row_id r = row_id q \<longrightarrow> i = j)
     \<and> (\<forall>r \<in> set (queue (pool (db s))). row_permit r \<noteq> 0 \<longrightarrow> (\<exists>i q. wk s i = Holding (row_permit r) q))
     \<and> (\<forall>p. p \<in> set (queue_permits (pool (db s))) \<longleftrightarrow> (\<exists>i q. wk s i = Holding p q))"

definition inv_account :: "conc \<Rightarrow> bool" where
  "inv_account s \<longleftrightarrow> distinct (finished s)
     \<and> set (accepted s) = row_id ` set (queue (pool (db s))) \<union> set (finished s)
     \<and> row_id ` set (queue (pool (db s))) \<inter> set (finished s) = {}
     \<and> (\<forall>i \<in> set (finished s). i \<le> queue_id_seq (db s))"

definition conc_inv :: "conc \<Rightarrow> bool" where
  "conc_inv s \<longleftrightarrow> db_ok (db s) \<and> inv_tx s \<and> inv_permit s \<and> inv_claim s \<and> inv_account s"

definition new_row :: "int \<Rightarrow> string \<Rightarrow> int option \<Rightarrow> uint64 \<Rightarrow> uint64 \<Rightarrow> json \<Rightarrow> string option \<Rightarrow> uint8 list option \<Rightarrow> queue_row" where
  "new_row i name g pri wt item a c = \<lparr>row_id = i, row_name = name, row_priority = int64_of_uint64 pri,
     row_permit = 0, row_item = item, row_group_id = g, row_type = int64_of_uint64 wt,
     row_address = a, row_carrier = c\<rparr>"

definition two_cfg :: "nat \<Rightarrow> string \<times> uint64 \<times> uint64 list" where
  "two_cfg i = (benchQueueName, 10, [7])"

definition plain_row :: "int \<Rightarrow> int \<Rightarrow> queue_row" where
  "plain_row i p = \<lparr>row_id = i, row_name = benchQueueName, row_priority = 10, row_permit = p, row_item = JNull,
     row_group_id = None, row_type = 7, row_address = None, row_carrier = None\<rparr>"

text \<open>Two rows pushed, \<open>n\<close> of them claimed by the workers \<open>0\<close> and \<open>1\<close> in turn.\<close>

definition two_db :: "int \<Rightarrow> int \<Rightarrow> pg_world" where
  "two_db p q = empty_world\<lparr>queue_id_seq := 2, permits_id_seq := p + q, next_tx := nat (p + q),
     pool := empty_tables\<lparr>queue := [plain_row 1 p, plain_row 2 (2 * q)],
       queue_permits := (if p = 0 then [] else if q = 0 then [1] else [1, 2])\<rparr>,
     notified := [(queueReadyChannel, \<lparr>NotifyType = notifyTypeQueue\<rparr>), (queueReadyChannel, \<lparr>NotifyType = notifyTypeQueue\<rparr>)]\<rparr>"

definition two_conc :: "int \<Rightarrow> int \<Rightarrow> conc" where
  "two_conc p q = \<lparr>db = two_db p q,
     wk = (\<lambda>i. if i = 1 \<and> q = 1 then Holding 2 (plain_row 2 0) else if i = 0 \<and> p = 1 then Holding 1 (plain_row 1 0) else Idle),
     accepted = [2, 1], finished = []\<rparr>"


inductive_cases conc_stepE: "conc_step cfg s t"

lemma conc_inv_init: "conc_inv init_conc"
  using store_inv_empty [of "[]"]
  by (simp add: conc_inv_def init_conc_def db_ok_def inv_tx_def inv_permit_def inv_claim_def inv_account_def
      empty_world_def empty_tables_def)

lemma worker_in_tx:
  assumes "conc_inv s" and "phase_tx (wk s i) = Some t"
  shows "in_tx (pop_store t) t (phase_log (wk s i)) (db s)"
  using assms by (simp add: conc_inv_def db_ok_def inv_tx_def in_tx_def pop_store_def)

lemma db_fresh: "conc_inv s \<Longrightarrow> next_tx (db s) \<notin> fst ` set (open_txs (db s))"
  by (simp add: conc_inv_def db_ok_def store_inv_fresh)

lemma phase_tx_open: "conc_inv s \<Longrightarrow> phase_tx (wk s i) = Some t \<Longrightarrow> t \<in> fst ` set (open_txs (db s))"
  using weak_map_of_SomeI [of "open_txs (db s)" t]
  by (auto simp: conc_inv_def inv_tx_def) (metis map_of_SomeD fst_conv image_eqI)

text \<open>A row claimed by another worker is locked.\<close>

lemma claimed_locked:
  assumes "conc_inv s" and "wk s j = Claimed t' p' q" and "t' \<noteq> t"
  shows "row_id q \<in> set (locked_rows (Some t) (db s))"
proof -
  have "map_of (open_txs (db s)) t' = Some \<lparr>tx_log = [InsPermit p', SetPermit (row_id q) p'], tx_aborted = False\<rparr>"
    using assms(1,2) unfolding conc_inv_def inv_tx_def by (metis phase_log.simps(2) phase_tx.simps(3))
  then have "(t', \<lparr>tx_log = [InsPermit p', SetPermit (row_id q) p'], tx_aborted = False\<rparr>) \<in> set (open_txs (db s))"
    by (rule map_of_SomeD)
  then show ?thesis
    using assms(3) by (force simp: locked_rows_def)
qed

subsection \<open>What each step does to the database\<close>

lemma new_row_simps [simp]: "row_id (new_row i name g pri wt item a c) = i" "row_permit (new_row i name g pri wt item a c) = 0"
  by (simp_all add: new_row_def)

lemma QueuePush_plain:
  "faults w = [] \<Longrightarrow> QueuePush (newPgStore True) name g pri wt (Inr item) c w = (e, s', u) \<Longrightarrow>
   e = None \<and> u = w\<lparr>queue_id_seq := queue_id_seq w + 1,
      pool := (pool w)\<lparr>queue := queue (pool w) @ [new_row (queue_id_seq w + 1) name g pri wt item None c]\<rparr>, notified := notified u\<rparr>"
  by (auto simp: QueuePush_def insert_queue_def record_dml_def Let_def queueNotify_plain new_row_def)

lemma QueuePushAddressed_plain:
  "faults w = [] \<Longrightarrow> QueuePushAddressed (newPgStore True) name g pri wt a (Inr item) c w = (e, s', u) \<Longrightarrow>
   (e \<noteq> None \<longrightarrow> u = w\<lparr>queue_id_seq := queue_id_seq w + 1\<rparr>)
   \<and> (e = None \<longrightarrow> u = w\<lparr>queue_id_seq := queue_id_seq w + 1,
      pool := (pool w)\<lparr>queue := queue (pool w) @ [new_row (queue_id_seq w + 1) name g pri wt item (Some a) c]\<rparr>, notified := notified u\<rparr>)"
  by (auto simp: QueuePushAddressed_plain_eq new_row_def split: if_splits)

lemma QueueDelete_plain:
  "faults w = [] \<Longrightarrow> QueueDelete (newPgStore True) p w = (e, s', u) \<Longrightarrow>
   u = w\<lparr>pool := apply_dml (DelPermit (int64_of_uint64 p)) (apply_dml (DelQueueByPermit (int64_of_uint64 p)) (pool w)),
     notified := notified u\<rparr>"
  by (auto simp: QueueDelete_def exec_ok queueNotify_plain)

lemma add_row_inv:
  assumes inv: "conc_inv s" and w: "w = (db s)\<lparr>queue_id_seq := queue_id_seq (db s) + 1,
      pool := (pool (db s))\<lparr>queue := queue (pool (db s)) @ [r]\<rparr>, notified := ns\<rparr>"
    and r: "row_id r = queue_id_seq (db s) + 1" "row_permit r = 0" and ok: "store_inv w"
  shows "conc_inv (s\<lparr>db := w, accepted := queue_id_seq w # accepted s\<rparr>)"
proof -
  have "inv_account (s\<lparr>db := w, accepted := queue_id_seq w # accepted s\<rparr>)"
    using inv r by (auto simp: conc_inv_def inv_account_def w)
  moreover have "inv_claim (s\<lparr>db := w, accepted := queue_id_seq w # accepted s\<rparr>)"
    using inv r by (auto simp: conc_inv_def inv_claim_def w)
  ultimately show ?thesis
    using inv ok by (auto simp: conc_inv_def db_ok_def inv_tx_def inv_permit_def w)
qed

subsection \<open>Steps that leave the tables alone\<close>

lemma inv_tx_upd:
  assumes "conc_inv s"
    and "\<And>t. phase_tx ph = Some t \<Longrightarrow> map_of (open_txs w) t = Some \<lparr>tx_log = phase_log ph, tx_aborted = False\<rparr>"
    and "\<And>j t. j \<noteq> i \<Longrightarrow> phase_tx (wk s j) = Some t \<Longrightarrow>
      phase_tx ph \<noteq> Some t \<and> map_of (open_txs w) t = map_of (open_txs (db s)) t"
  shows "inv_tx (s\<lparr>db := w, wk := (wk s)(i := ph), finished := fs\<rparr>)"
proof -
  have old: "\<And>j t. phase_tx (wk s j) = Some t \<Longrightarrow> map_of (open_txs (db s)) t = Some \<lparr>tx_log = phase_log (wk s j), tx_aborted = False\<rparr>"
    and dist: "\<And>j k t. phase_tx (wk s j) = Some t \<Longrightarrow> phase_tx (wk s k) = Some t \<Longrightarrow> j = k"
    using assms(1) unfolding conc_inv_def inv_tx_def by blast+
  show ?thesis
    unfolding inv_tx_def
  proof (intro conjI allI impI)
    fix j t
    assume "phase_tx (wk (s\<lparr>db := w, wk := (wk s)(i := ph), finished := fs\<rparr>) j) = Some t"
    then show "map_of (open_txs (db (s\<lparr>db := w, wk := (wk s)(i := ph), finished := fs\<rparr>))) t =
        Some \<lparr>tx_log = phase_log (wk (s\<lparr>db := w, wk := (wk s)(i := ph), finished := fs\<rparr>) j), tx_aborted = False\<rparr>"
      using assms(2,3) old by (cases "j = i") auto
  next
    fix j k t
    assume "phase_tx (wk (s\<lparr>db := w, wk := (wk s)(i := ph), finished := fs\<rparr>) j) = Some t"
      and "phase_tx (wk (s\<lparr>db := w, wk := (wk s)(i := ph), finished := fs\<rparr>) k) = Some t"
    then show "j = k"
      using assms(3) dist by (cases "j = i"; cases "k = i") auto
  qed
qed

lemma inv_permit_upd:
  assumes "conc_inv s" and "permits_id_seq (db s) \<le> permits_id_seq w"
    and "\<And>p. phase_permit ph = Some p \<Longrightarrow>
      phase_permit (wk s i) = Some p \<or> p = permits_id_seq (db s) + 1 \<and> p \<le> permits_id_seq w"
  shows "inv_permit (s\<lparr>db := w, wk := (wk s)(i := ph), finished := fs\<rparr>)"
proof -
  have old: "\<And>j p. phase_permit (wk s j) = Some p \<Longrightarrow> 0 < p \<and> p \<le> permits_id_seq (db s)"
    and dist: "\<And>j k p. phase_permit (wk s j) = Some p \<Longrightarrow> phase_permit (wk s k) = Some p \<Longrightarrow> j = k"
    and pos: "0 \<le> permits_id_seq (db s)"
    using assms(1) unfolding conc_inv_def inv_permit_def db_ok_def store_inv_def wf_tables_def by blast+
  have new: "0 < p \<and> p \<le> permits_id_seq w" if "phase_permit ph = Some p" for p
    using assms(2) assms(3) [OF that] old [of i p] pos by auto
  have other: "phase_permit (wk s j) \<noteq> Some p" if "phase_permit ph = Some p" "j \<noteq> i" for j p
    using assms(3) [OF that(1)] old [of j p] dist [of i p j] that(2) by auto
  show ?thesis
    unfolding inv_permit_def
  proof (intro conjI allI impI)
    fix j p
    assume "phase_permit (wk (s\<lparr>db := w, wk := (wk s)(i := ph), finished := fs\<rparr>) j) = Some p"
    then have "0 < p \<and> p \<le> permits_id_seq w"
      using new [of p] old [of j p] assms(2) by (cases "j = i") auto
    then show "0 < p" "p \<le> permits_id_seq (db (s\<lparr>db := w, wk := (wk s)(i := ph), finished := fs\<rparr>))" by simp_all
  next
    fix j k p
    assume "phase_permit (wk (s\<lparr>db := w, wk := (wk s)(i := ph), finished := fs\<rparr>) j) = Some p"
      and "phase_permit (wk (s\<lparr>db := w, wk := (wk s)(i := ph), finished := fs\<rparr>) k) = Some p"
    then show "j = k"
      using other [of p] dist [of j p k] by (cases "j = i"; cases "k = i") auto
  qed
qed

lemma conc_invD:
  assumes "conc_inv s"
  shows "wk s i = Claimed t p r \<Longrightarrow> r \<in> set (queue (pool (db s))) \<and> row_permit r = 0"
    and "wk s i = Holding p r \<Longrightarrow> r\<lparr>row_permit := p\<rparr> \<in> set (queue (pool (db s)))"
    and "wk s i = Claimed t p r \<Longrightarrow> wk s j = Claimed t' p' q \<Longrightarrow> row_id r = row_id q \<Longrightarrow> i = j"
    and "r \<in> set (queue (pool (db s))) \<Longrightarrow> row_permit r \<noteq> 0 \<Longrightarrow> \<exists>i q. wk s i = Holding (row_permit r) q"
    and "p \<in> set (queue_permits (pool (db s))) \<longleftrightarrow> (\<exists>i q. wk s i = Holding p q)"
  using assms unfolding conc_inv_def inv_claim_def by blast+

lemma inv_claim_upd:
  assumes inv: "conc_inv s" and pool: "pool w = pool (db s)"
    and now: "\<And>p q. wk s i \<noteq> Holding p q" and after: "\<And>p q. ph \<noteq> Holding p q"
    and new: "\<And>t p r. ph = Claimed t p r \<Longrightarrow> r \<in> set (queue (pool (db s))) \<and> row_permit r = 0"
    and free: "\<And>t p r j t' p' q. ph = Claimed t p r \<Longrightarrow> wk s j = Claimed t' p' q \<Longrightarrow> j \<noteq> i \<Longrightarrow> row_id r \<noteq> row_id q"
  shows "inv_claim (s\<lparr>db := w, wk := (wk s)(i := ph)\<rparr>)"
proof -
  let ?f = "(wk s)(i := ph)"
  have hold: "?f j = Holding p q \<longleftrightarrow> wk s j = Holding p q" for j p q
    using now after by auto
  have claimed: "r \<in> set (queue (pool (db s))) \<and> row_permit r = 0" if "?f j = Claimed t p r" for j t p r
    using that new conc_invD(1) [OF inv] by (cases "j = i") auto
  have one: "j = k" if "?f j = Claimed t p r" "?f k = Claimed t' p' q" "row_id r = row_id q" for j k t p r t' p' q
  proof (cases "j = i")
    case True
    then show ?thesis using that free [of t p r k t' p' q] by (cases "k = i") auto
  next
    case False
    then show ?thesis using that free [of t' p' q j t p r] conc_invD(3) [OF inv, of j t p r k t' p' q] by (cases "k = i") auto
  qed
  have d: "db (s\<lparr>db := w, wk := ?f\<rparr>) = w" "wk (s\<lparr>db := w, wk := ?f\<rparr>) = ?f" by simp_all
  show ?thesis
    unfolding inv_claim_def d pool hold
    using claimed one conc_invD(2,4,5) [OF inv] by (intro conjI allI impI ballI) metis+
qed

text \<open>A step of worker \<open>i\<close> that leaves the committed tables alone.\<close>

lemma local_step_inv:
  assumes inv: "conc_inv s" and w: "db_ok w" "pool w = pool (db s)" "queue_id_seq w = queue_id_seq (db s)"
    and tx: "inv_tx (s\<lparr>db := w, wk := (wk s)(i := ph), finished := finished s\<rparr>)"
    and pm: "inv_permit (s\<lparr>db := w, wk := (wk s)(i := ph), finished := finished s\<rparr>)"
    and cl: "inv_claim (s\<lparr>db := w, wk := (wk s)(i := ph)\<rparr>)"
  shows "conc_inv (s\<lparr>db := w, wk := (wk s)(i := ph)\<rparr>)"
proof -
  have eq: "s\<lparr>db := w, wk := (wk s)(i := ph), finished := finished s\<rparr> = s\<lparr>db := w, wk := (wk s)(i := ph)\<rparr>"
    by simp
  have "inv_account s" using inv by (simp add: conc_inv_def)
  then have "inv_account (s\<lparr>db := w, wk := (wk s)(i := ph)\<rparr>)"
    by (simp add: inv_account_def w)
  then show ?thesis
    using w tx pm cl unfolding conc_inv_def eq by simp
qed

lemma db_ok_frame:
  assumes "db_ok w" and "pool u = pool w" and "queue_id_seq u = queue_id_seq w"
    and "permits_id_seq w \<le> permits_id_seq u" "permits_id_seq u < 2 ^ 63" and "faults u = []"
    and "distinct (map fst (open_txs u))" and "\<forall>t \<in> fst ` set (open_txs u). t < next_tx u"
  shows "db_ok u"
  using assms wf_tables_mono [of "queue_id_seq w" "permits_id_seq w" "pool w" "queue_id_seq w" "permits_id_seq u"]
  by (simp add: db_ok_def store_inv_def)

lemma db_okD:
  assumes "db_ok w"
  shows "store_inv w" "faults w = []" "permits_id_seq w < 2 ^ 63" "distinct (map fst (open_txs w))"
    "\<forall>t \<in> fst ` set (open_txs w). t < next_tx w"
  using assms by (auto simp: db_ok_def store_inv_def)

lemma tx_apart: "conc_inv s \<Longrightarrow> phase_tx (wk s i) = Some t \<Longrightarrow> phase_tx (wk s j) = Some t \<Longrightarrow> i = j"
  unfolding conc_inv_def inv_tx_def by blast

lemma conc_db_ok: "conc_inv s \<Longrightarrow> db_ok (db s)"
  by (simp add: conc_inv_def)

lemma count_inv:
  assumes inv: "conc_inv s" and "wk s i = Idle"
    and pc: "pop_precount (newPgStore True) name mp ts (db s) = (Inr cnt, w)"
  shows "conc_inv (s\<lparr>db := w, wk := (wk s)(i := Counted)\<rparr>)"
proof -
  have w: "w = db s"
    using pc db_okD(2) [OF conc_db_ok [OF inv]] by (simp add: pop_precount_def query_ok)
  show ?thesis
    unfolding w
    by (rule local_step_inv [OF inv conc_db_ok [OF inv] refl refl inv_tx_upd [OF inv] inv_permit_upd [OF inv]
        inv_claim_upd [OF inv]]) (simp_all add: assms(2))
qed

lemma start_inv:
  assumes inv: "conc_inv s" and i: "wk s i = Counted" and b: "begin_tx (db s) = (Inr t, w)"
  shows "conc_inv (s\<lparr>db := w, wk := (wk s)(i := Began t)\<rparr>)"
proof -
  note ok = db_okD [OF conc_db_ok [OF inv]]
  have w: "w = (db s)\<lparr>open_txs := open_txs (db s) @ [(t, \<lparr>tx_log = [], tx_aborted = False\<rparr>)], next_tx := Suc t\<rparr>"
    and t: "t = next_tx (db s)" and fresh: "t \<notin> fst ` set (open_txs (db s))"
    using b db_fresh [OF inv] begin_tx_ok [OF ok(2)] by (auto simp: update_fresh)
  have other: "t' \<noteq> t" if "phase_tx (wk s j) = Some t'" for j t'
    using phase_tx_open [OF inv that] fresh by auto
  have own: "map_of (open_txs w) t = Some \<lparr>tx_log = [], tx_aborted = False\<rparr>"
    using fresh map_of_eq_None_iff [of "open_txs (db s)" t] by (simp add: w map_add_def)
  have oth: "map_of (open_txs w) t' = map_of (open_txs (db s)) t'" if "t' \<noteq> t" for t'
    using that by (simp add: w map_add_def split: option.split)
  have fr: "pool w = pool (db s)" "queue_id_seq w = queue_id_seq (db s)" "permits_id_seq w = permits_id_seq (db s)"
    by (simp_all add: w)
  have "db_ok w"
    by (rule db_ok_frame [OF conc_db_ok [OF inv]]) (use ok fresh t in \<open>auto simp: w\<close>)
  then show ?thesis
    by (rule local_step_inv [OF inv _ _ _ inv_tx_upd [OF inv] inv_permit_upd [OF inv] inv_claim_upd [OF inv]])
      (use i other own oth in \<open>auto simp: fr\<close>)
qed

lemma permit_inv:
  assumes inv: "conc_inv s" and i: "wk s i = Began t" and bound: "permits_id_seq (db s) + 1 < 2 ^ 63"
    and p: "pop_permit (pop_store t) (db s) = (Inr p, w)"
  shows "conc_inv (s\<lparr>db := w, wk := (wk s)(i := Permitted t p)\<rparr>)"
proof -
  note ok = db_okD [OF conc_db_ok [OF inv]]
  have it: "in_tx (pop_store t) t [] (db s)"
    using worker_in_tx [OF inv, of i t] i by simp
  have pw: "p = permits_id_seq (db s) + 1"
      "w = (db s)\<lparr>permits_id_seq := p, open_txs := AList.update t \<lparr>tx_log = [InsPermit p], tx_aborted = False\<rparr> (open_txs (db s))\<rparr>"
    using p pop_permit_tx [OF it] by auto
  have other: "t' \<noteq> t" if "phase_tx (wk s j) = Some t'" "j \<noteq> i" for j t'
    using tx_apart [OF inv, of i t j] i that by auto
  have dom: "fst ` set (open_txs w) = fst ` set (open_txs (db s))"
    using phase_tx_open [OF inv, of i t] i by (auto simp: pw(2) dom_update)
  have "db_ok w"
    by (rule db_ok_frame [OF conc_db_ok [OF inv]])
      (use ok bound dom in \<open>simp_all add: pw distinct_update\<close>)
  then show ?thesis
    by (rule local_step_inv [OF inv _ _ _ inv_tx_upd [OF inv] inv_permit_upd [OF inv] inv_claim_upd [OF inv]])
      (use i other in \<open>auto simp: pw update_conv'\<close>)
qed

lemma claim_inv:
  assumes inv: "conc_inv s" and i: "wk s i = Permitted t p"
    and c: "pop_claim (pop_store t) p name mp ts (db s) = (Inr r, w)"
  shows "conc_inv (s\<lparr>db := w, wk := (wk s)(i := Claimed t p r)\<rparr>)"
proof -
  note ok = db_okD [OF conc_db_ok [OF inv]]
  let ?free = "\<lambda>r. claimable name mp ts r \<and> row_id r \<notin> set (locked_rows (Some t) (db s))"
  have it: "in_tx (pop_store t) t [InsPermit p] (db s)"
    using worker_in_tx [OF inv, of i t] i by simp
  have ol: "order_limit1 (filter ?free (queue (pool (db s)))) = Some r"
    and w: "w = (db s)\<lparr>open_txs := AList.update t \<lparr>tx_log = [InsPermit p, SetPermit (row_id r) p], tx_aborted = False\<rparr> (open_txs (db s))\<rparr>"
    using c pop_claim_tx [OF it, of name mp ts] by (auto split: option.splits)
  have r: "r \<in> set (queue (pool (db s)))" "claimable name mp ts r" "row_id r \<notin> set (locked_rows (Some t) (db s))"
    using order_limit1_Some(1) [OF ol] by auto
  have other: "t' \<noteq> t" if "phase_tx (wk s j) = Some t'" "j \<noteq> i" for j t'
    using tx_apart [OF inv, of i t j] i that by auto
  have free: "row_id r \<noteq> row_id q" if "wk s j = Claimed t' p' q" "j \<noteq> i" for j t' p' q
    using claimed_locked [OF inv that(1)] other [of j t'] that r(3) by fastforce
  have dom: "fst ` set (open_txs w) = fst ` set (open_txs (db s))"
    using phase_tx_open [OF inv, of i t] i by (auto simp: w dom_update)
  have "db_ok w"
    by (rule db_ok_frame [OF conc_db_ok [OF inv]]) (use ok dom in \<open>simp_all add: w distinct_update\<close>)
  then show ?thesis
    by (rule local_step_inv [OF inv _ _ _ inv_tx_upd [OF inv] inv_permit_upd [OF inv] inv_claim_upd [OF inv]])
      (use i other r free in \<open>auto simp: w update_conv' claimable_def\<close>)
qed

lemma miss_inv:
  assumes inv: "conc_inv s" and i: "wk s i = Permitted t p"
    and c: "pop_claim (pop_store t) p name mp ts (db s) = (Inl ErrNoRows, w)"
    and e: "exec (pop_store t) (DelPermit p) w = (e, u)"
  shows "conc_inv (s\<lparr>db := rollback_tx t u, wk := (wk s)(i := Idle)\<rparr>)"
proof -
  note ok = db_okD [OF conc_db_ok [OF inv]]
  have it: "in_tx (pop_store t) t [InsPermit p] (db s)"
    using worker_in_tx [OF inv, of i t] i by simp
  have w: "w = db s"
    using c pop_claim_tx [OF it, of name mp ts] by (auto split: option.splits)
  have u: "rollback_tx t u = (db s)\<lparr>open_txs := AList.delete t (open_txs (db s))\<rparr>"
    using e in_tx_stmt [OF it] in_tx_record [OF it]
    by (auto simp: w exec_def rollback_tx_def close_tx_def delete_update_same)
  have other: "t' \<noteq> t" if "phase_tx (wk s j) = Some t'" "j \<noteq> i" for j t'
    using tx_apart [OF inv, of i t j] i that by auto
  have "db_ok (rollback_tx t u)"
    by (rule db_ok_frame [OF conc_db_ok [OF inv]]) (use ok in \<open>auto simp: u delete_keys distinct_removeAll AList.delete_eq\<close>)
  then show ?thesis
    by (rule local_step_inv [OF inv _ _ _ inv_tx_upd [OF inv] inv_permit_upd [OF inv] inv_claim_upd [OF inv]])
      (use i other in \<open>auto simp: u delete_conv'\<close>)
qed

text \<open>The permit of a worker that has not committed yet is on no row and in no permit row.\<close>

lemma permit_unused:
  assumes inv: "conc_inv s" and i: "wk s i = Claimed t p r"
  shows "0 < p" and "p \<le> permits_id_seq (db s)" and "p \<notin> row_permit ` set (queue (pool (db s)))"
    and "p \<notin> set (queue_permits (pool (db s)))"
proof -
  have pm: "phase_permit (wk s i) = Some p" using i by simp
  then show p: "0 < p" "p \<le> permits_id_seq (db s)"
    using inv unfolding conc_inv_def inv_permit_def by blast+
  have no: "wk s j \<noteq> Holding p q" for j q
  proof
    assume "wk s j = Holding p q"
    then have "phase_permit (wk s j) = Some p" "j \<noteq> i" using i by auto
    then show False using pm inv unfolding conc_inv_def inv_permit_def by blast
  qed
  then show "p \<notin> set (queue_permits (pool (db s)))" using conc_invD(5) [OF inv] by blast
  show "p \<notin> row_permit ` set (queue (pool (db s)))"
    using conc_invD(4) [OF inv] no p(1) by fastforce
qed

lemma commit_claim:
  fixes s i p r
  defines "T \<equiv> claim_tables (row_id r) p (pool (db s))" and "f \<equiv> (wk s)(i := Holding p r)"
  assumes inv: "conc_inv s" and i: "wk s i = Claimed t p r"
  shows "f j = Claimed t' p' q \<longrightarrow> q \<in> set (queue T) \<and> row_permit q = 0"
    and "f j = Holding p' q \<longrightarrow> q\<lparr>row_permit := p'\<rparr> \<in> set (queue T)"
    and "f j = Claimed t' p' q \<longrightarrow> f k = Claimed t'' p'' q' \<longrightarrow> row_id q = row_id q' \<longrightarrow> j = k"
    and "q \<in> set (queue T) \<longrightarrow> row_permit q \<noteq> 0 \<longrightarrow> (\<exists>i q'. f i = Holding (row_permit q) q')"
    and "p' \<in> set (queue_permits T) \<longleftrightarrow> (\<exists>i q. f i = Holding p' q)"
proof -
  have r: "r \<in> set (queue (pool (db s)))" "row_permit r = 0" using conc_invD(1) [OF inv i] by auto
  have wf: "wf_rows (queue_id_seq (db s)) (permits_id_seq (db s)) (queue (pool (db s)))"
    using db_okD(1) [OF conc_db_ok [OF inv]] by (simp add: store_inv_def wf_tables_def)
  have is_r: "q = r" if "q \<in> set (queue (pool (db s)))" "row_id q = row_id r" for q
    using wf_rows_id_inj [OF wf that(1) r(1) that(2)] .
  have Q: "queue T = map (set_permit (row_id r) p) (queue (pool (db s)))" by (simp add: T_def)
  have keep: "q \<in> set (queue T)" if "q \<in> set (queue (pool (db s)))" "row_id q \<noteq> row_id r" for q
    using that by (force simp: Q set_permit_def image_iff)
  have new: "r\<lparr>row_permit := p\<rparr> \<in> set (queue T)"
    using r(1) by (force simp: Q set_permit_def image_iff)
  have holds: "f j = Holding p' q \<longleftrightarrow> (if j = i then p' = p \<and> q = r else wk s j = Holding p' q)" for j p' q
    by (auto simp: f_def)
  have claims: "f j = Claimed t' p' q \<longleftrightarrow> j \<noteq> i \<and> wk s j = Claimed t' p' q" for j t' p' q
    by (auto simp: f_def)
  show "f j = Claimed t' p' q \<longrightarrow> q \<in> set (queue T) \<and> row_permit q = 0"
    using conc_invD(1) [OF inv, of j] conc_invD(3) [OF inv, of j _ _ q i] i keep unfolding claims by blast
  show "f j = Holding p' q \<longrightarrow> q\<lparr>row_permit := p'\<rparr> \<in> set (queue T)"
  proof (cases "j = i")
    case True
    then show ?thesis using new by (simp add: holds)
  next
    case False
    have "row_id q \<noteq> row_id r" if h: "wk s j = Holding p' q"
    proof
      assume "row_id q = row_id r"
      then have "q\<lparr>row_permit := p'\<rparr> = r" using is_r [OF conc_invD(2) [OF inv h]] by simp
      then have "p' = 0" using r(2) by (metis queue_row.select_convs(4) queue_row.surjective queue_row.update_convs(4))
      moreover have "0 < p'" using inv h unfolding conc_inv_def inv_permit_def by (metis phase_permit.simps(3))
      ultimately show False by simp
    qed
    then show ?thesis using False keep [of "q\<lparr>row_permit := p'\<rparr>"] conc_invD(2) [OF inv] by (auto simp: holds)
  qed
  show "f j = Claimed t' p' q \<longrightarrow> f k = Claimed t'' p'' q' \<longrightarrow> row_id q = row_id q' \<longrightarrow> j = k"
    using conc_invD(3) [OF inv] unfolding claims by blast
  have old: "\<exists>i q. f i = Holding p' q" if "\<exists>i q. wk s i = Holding p' q" for p'
    using that i unfolding holds by (metis phase.distinct(29))
  show "q \<in> set (queue T) \<longrightarrow> row_permit q \<noteq> 0 \<longrightarrow> (\<exists>i q'. f i = Holding (row_permit q) q')"
  proof (intro impI)
    assume "q \<in> set (queue T)" "row_permit q \<noteq> 0"
    then obtain q0 where q0: "q0 \<in> set (queue (pool (db s)))" "q = set_permit (row_id r) p q0" by (auto simp: Q)
    show "\<exists>i q'. f i = Holding (row_permit q) q'"
    proof (cases "row_id q0 = row_id r")
      case True
      then show ?thesis using q0 holds [of i p r] by auto
    next
      case False
      then show ?thesis using q0 \<open>row_permit q \<noteq> 0\<close> conc_invD(4) [OF inv q0(1)] old by simp
    qed
  qed
  show "p' \<in> set (queue_permits T) \<longleftrightarrow> (\<exists>i q. f i = Holding p' q)"
  proof -
    have "(\<exists>j q. f j = Holding p' q) \<longleftrightarrow> p' = p \<or> (\<exists>j q. wk s j = Holding p' q)"
      using old holds by (metis (no_types, lifting))
    then show ?thesis using conc_invD(5) [OF inv] by (auto simp: T_def)
  qed
qed

lemma commit_inv:
  assumes inv: "conc_inv s" and i: "wk s i = Claimed t p r" and c: "commit_tx t (db s) = (None, w)"
  shows "conc_inv (s\<lparr>db := w, wk := (wk s)(i := Holding p r)\<rparr>)"
proof -
  note ok = db_okD [OF conc_db_ok [OF inv]] and un = permit_unused [OF inv i]
  let ?s = "s\<lparr>db := w, wk := (wk s)(i := Holding p r)\<rparr>"
  have it: "in_tx (pop_store t) t [InsPermit p, SetPermit (row_id r) p] (db s)"
    using worker_in_tx [OF inv, of i t] i by simp
  have w: "w = (db s)\<lparr>pool := claim_tables (row_id r) p (pool (db s)), open_txs := AList.delete t (open_txs (db s))\<rparr>"
    using c commit_tx_ok [OF it] by (auto simp: claim_tables_def)
  have r: "r \<in> set (queue (pool (db s)))" "row_permit r = 0" using conc_invD(1) [OF inv i] by auto
  have wf: "wf_rows (queue_id_seq (db s)) (permits_id_seq (db s)) (queue (pool (db s)))"
    using ok(1) by (simp add: store_inv_def wf_tables_def)
  have is_r: "q = r" if "q \<in> set (queue (pool (db s)))" "row_id q = row_id r" for q
    using wf_rows_id_inj [OF wf that(1) r(1) that(2)] .
  have other: "t' \<noteq> t" if "phase_tx (wk s j) = Some t'" "j \<noteq> i" for j t'
    using tx_apart [OF inv, of i t j] i that by auto
  have "wf_rows (queue_id_seq (db s)) (permits_id_seq (db s)) (map (set_permit (row_id r) p) (queue (pool (db s))))"
    by (rule wf_rows_set_permit [OF wf un(1,2) order_refl un(3)])
  then have ok': "db_ok w"
    using ok un by (auto simp: db_ok_def w store_inv_def wf_tables_def delete_keys distinct_removeAll AList.delete_eq)
  have tx: "inv_tx (s\<lparr>db := w, wk := (wk s)(i := Holding p r), finished := finished s\<rparr>)"
    by (rule inv_tx_upd [OF inv]) (use other in \<open>auto simp: w delete_conv'\<close>)
  have pm: "inv_permit (s\<lparr>db := w, wk := (wk s)(i := Holding p r), finished := finished s\<rparr>)"
    by (rule inv_permit_upd [OF inv]) (use i in \<open>auto simp: w\<close>)
  have ids: "row_id ` set (queue (pool w)) = row_id ` set (queue (pool (db s)))"
    by (simp add: w image_image)
  have "inv_account ?s"
    using inv by (simp add: conc_inv_def inv_account_def ids) (simp add: w)
  moreover have "inv_claim ?s"
  proof -
    have d: "pool (db ?s) = claim_tables (row_id r) p (pool (db s))" "wk ?s = (wk s)(i := Holding p r)"
      by (simp_all add: w)
    show ?thesis
      unfolding inv_claim_def d by (intro conjI allI ballI) (use commit_claim [OF inv i] in blast)+
  qed
  ultimately show ?thesis
    using ok' tx pm by (simp add: conc_inv_def)
qed

lemma finish_claim:
  fixes s i p
  defines "T \<equiv> apply_dml (DelPermit p) (apply_dml (DelQueueByPermit p) (pool (db s)))" and "f \<equiv> (wk s)(i := Idle)"
  assumes inv: "conc_inv s" and i: "wk s i = Holding p r"
  shows "f j = Claimed t' p' q \<longrightarrow> q \<in> set (queue T) \<and> row_permit q = 0"
    and "f j = Holding p' q \<longrightarrow> q\<lparr>row_permit := p'\<rparr> \<in> set (queue T)"
    and "f j = Claimed t' p' q \<longrightarrow> f k = Claimed t'' p'' q' \<longrightarrow> row_id q = row_id q' \<longrightarrow> j = k"
    and "q \<in> set (queue T) \<longrightarrow> row_permit q \<noteq> 0 \<longrightarrow> (\<exists>i q'. f i = Holding (row_permit q) q')"
    and "p' \<in> set (queue_permits T) \<longleftrightarrow> (\<exists>i q. f i = Holding p' q)"
proof -
  have p: "0 < p" and apart: "j = i" if "wk s j = Holding p q" for j q
    using inv i that unfolding conc_inv_def inv_permit_def by (metis phase_permit.simps(3))+
  have Q: "set (queue T) = {r \<in> set (queue (pool (db s))). row_permit r \<noteq> p}"
    "set (queue_permits T) = set (queue_permits (pool (db s))) - {p}"
    by (auto simp: T_def)
  have holds: "f j = Holding p' q \<longleftrightarrow> j \<noteq> i \<and> wk s j = Holding p' q" for j p' q
    by (simp add: f_def)
  have claims: "f j = Claimed t' p' q \<longleftrightarrow> wk s j = Claimed t' p' q" for j t' p' q
    using i by (auto simp: f_def)
  have held: "(\<exists>j q. f j = Holding p' q) \<longleftrightarrow> p' \<noteq> p \<and> (\<exists>j q. wk s j = Holding p' q)" for p'
    using apart i unfolding holds by (metis phase.inject)
  show "f j = Claimed t' p' q \<longrightarrow> q \<in> set (queue T) \<and> row_permit q = 0"
    using conc_invD(1) [OF inv] p [OF i] unfolding claims Q by fastforce
  show "f j = Holding p' q \<longrightarrow> q\<lparr>row_permit := p'\<rparr> \<in> set (queue T)"
    using conc_invD(2) [OF inv] apart unfolding holds Q by auto
  show "f j = Claimed t' p' q \<longrightarrow> f k = Claimed t'' p'' q' \<longrightarrow> row_id q = row_id q' \<longrightarrow> j = k"
    using conc_invD(3) [OF inv] unfolding claims by blast
  show "q \<in> set (queue T) \<longrightarrow> row_permit q \<noteq> 0 \<longrightarrow> (\<exists>i q'. f i = Holding (row_permit q) q')"
    using conc_invD(4) [OF inv] unfolding held Q by blast
  show "p' \<in> set (queue_permits T) \<longleftrightarrow> (\<exists>i q. f i = Holding p' q)"
    using conc_invD(5) [OF inv] unfolding held Q by blast
qed

text \<open>The only row with the permit of a worker is the row it holds.\<close>

lemma held_row:
  assumes inv: "conc_inv s" and i: "wk s i = Holding p r"
  shows "q \<in> set (queue (pool (db s))) \<and> row_permit q = p \<longleftrightarrow> q = r\<lparr>row_permit := p\<rparr>"
proof -
  have wf: "inj_on row_permit {q \<in> set (queue (pool (db s))). row_permit q \<noteq> 0}"
    using db_okD(1) [OF conc_db_ok [OF inv]] by (simp add: store_inv_def wf_tables_def wf_rows_def)
  have "0 < p" using inv i unfolding conc_inv_def inv_permit_def by (metis phase_permit.simps(3))
  then show ?thesis
    using conc_invD(2) [OF inv i] inj_onD [OF wf, of q "r\<lparr>row_permit := p\<rparr>"] by auto
qed

lemma finish_account:
  fixes s p
  defines "ids \<equiv> row_id ` {q \<in> set (queue (pool (db s))). row_permit q \<noteq> p}"
  assumes inv: "conc_inv s" and i: "wk s i = Holding p r"
  shows "row_id r \<notin> set (finished s)" and "distinct (finished s)"
    and "set (accepted s) = ids \<union> insert (row_id r) (set (finished s))"
    and "row_id r \<notin> ids" and "ids \<inter> set (finished s) = {}"
    and "row_id r \<le> queue_id_seq (db s)" and "\<forall>j \<in> set (finished s). j \<le> queue_id_seq (db s)"
proof -
  let ?Q = "set (queue (pool (db s)))"
  have wf: "wf_rows (queue_id_seq (db s)) (permits_id_seq (db s)) (queue (pool (db s)))"
    using db_okD(1) [OF conc_db_ok [OF inv]] by (simp add: store_inv_def wf_tables_def)
  have acc: "distinct (finished s)" "set (accepted s) = row_id ` ?Q \<union> set (finished s)"
    "row_id ` ?Q \<inter> set (finished s) = {}" "\<forall>j \<in> set (finished s). j \<le> queue_id_seq (db s)"
    using inv unfolding conc_inv_def inv_account_def by blast+
  have r: "r\<lparr>row_permit := p\<rparr> \<in> ?Q" by (rule conc_invD(2) [OF inv i])
  then have rid: "row_id r \<in> row_id ` ?Q" using image_eqI [of "row_id r" row_id "r\<lparr>row_permit := p\<rparr>" ?Q] by simp
  have notin: "row_id r \<notin> ids"
    using held_row [OF inv i] wf_rows_id_inj [OF wf _ r] by (fastforce simp: ids_def)
  have "?Q = insert (r\<lparr>row_permit := p\<rparr>) {q \<in> ?Q. row_permit q \<noteq> p}"
    using held_row [OF inv i] by blast
  then have ids: "row_id ` ?Q = insert (row_id r) ids"
    unfolding ids_def by (metis (no_types, lifting) image_insert queue_row.simps(1) queue_row.select_convs(1) queue_row.surjective queue_row.update_convs(4))
  show "row_id r \<notin> set (finished s)" "distinct (finished s)"
    "set (accepted s) = ids \<union> insert (row_id r) (set (finished s))"
    "row_id r \<notin> ids" "ids \<inter> set (finished s) = {}" "\<forall>j \<in> set (finished s). j \<le> queue_id_seq (db s)"
    using acc notin unfolding ids by auto
  show "row_id r \<le> queue_id_seq (db s)"
    using wf r unfolding wf_rows_def by fastforce
qed

lemma finish_inv:
  assumes inv: "conc_inv s" and i: "wk s i = Holding p r"
    and del: "QueueDelete (newPgStore True) (Permit (work_of p r)) (db s) = (None, s', w)"
  shows "conc_inv (s\<lparr>db := w, wk := (wk s)(i := Idle), finished := row_id r # finished s\<rparr>)"
proof -
  note ok = db_okD [OF conc_db_ok [OF inv]]
  let ?s = "s\<lparr>db := w, wk := (wk s)(i := Idle), finished := row_id r # finished s\<rparr>"
  have "0 < p \<and> p \<le> permits_id_seq (db s)"
    using inv i unfolding conc_inv_def inv_permit_def by (metis phase_permit.simps(3))
  then have "int64_of_uint64 (Permit (work_of p r)) = p"
    using ok(3) by (simp add: work_of_def int64_uint64_roundtrip in_int64_def)
  then have w: "w = (db s)\<lparr>pool := apply_dml (DelPermit p) (apply_dml (DelQueueByPermit p) (pool (db s))), notified := notified w\<rparr>"
    using QueueDelete_plain [OF ok(2) del] by simp
  have fr: "open_txs w = open_txs (db s)" "permits_id_seq w = permits_id_seq (db s)" "queue_id_seq w = queue_id_seq (db s)"
    "faults w = faults (db s)"
    by (subst w, simp)+
  have "store_inv w"
    using QueueDelete_inv [of "newPgStore True" "db s" "Permit (work_of p r)"] ok(1) del by simp
  then have db: "db_ok w" using ok by (simp add: db_ok_def fr)
  have tx: "inv_tx ?s"
    by (rule inv_tx_upd [OF inv]) (simp_all add: fr)
  have pm: "inv_permit ?s"
    by (rule inv_permit_upd [OF inv]) (simp_all add: fr)
  have pool: "pool (db ?s) = apply_dml (DelPermit p) (apply_dml (DelQueueByPermit p) (pool (db s)))"
    and f: "wk ?s = (wk s)(i := Idle)"
    using arg_cong [OF w, of pool] by simp_all
  have cl: "inv_claim ?s"
    unfolding inv_claim_def pool f by (intro conjI allI ballI) (use finish_claim [OF inv i] in blast)+
  have "inv_account ?s"
    using finish_account [OF inv i] by (simp add: inv_account_def pool [simplified] fr)
  with db tx pm cl show ?thesis by (simp add: conc_inv_def)
qed

lemma conc_step_inv:
  assumes "conc_step cfg s t" and inv: "conc_inv s"
  shows "conc_inv t"
  using assms(1)
proof cases
  case (push name g pri wt item c s' w)
  then show ?thesis
    using QueuePush_plain [OF db_okD(2) [OF conc_db_ok [OF inv]] push(2)]
      QueuePush_inv [of "newPgStore True" "db s" name g pri wt "Inr item" c] db_okD(1) [OF conc_db_ok [OF inv]]
    by (auto intro!: add_row_inv [OF inv, where ns = "notified w"])
next
  case (push_addressed name g pri wt a item c e s' w)
  note eq = QueuePushAddressed_plain [OF db_okD(2) [OF conc_db_ok [OF inv]] push_addressed(2)]
  have ok: "store_inv w"
    using QueuePushAddressed_inv [of "newPgStore True" "db s" name g pri wt a "Inr item" c] push_addressed(2)
      db_okD(1) [OF conc_db_ok [OF inv]] by simp
  show ?thesis
  proof (cases e)
    case None
    with eq have "w = (db s)\<lparr>queue_id_seq := queue_id_seq (db s) + 1, pool := (pool (db s))\<lparr>queue :=
        queue (pool (db s)) @ [new_row (queue_id_seq (db s) + 1) name g pri wt item (Some a) c]\<rparr>, notified := notified w\<rparr>" by simp
    from add_row_inv [OF inv this _ _ ok] show ?thesis
      by (simp add: push_addressed(1) None)
  next
    case (Some err)
    with eq have w: "w = (db s)\<lparr>queue_id_seq := queue_id_seq (db s) + 1\<rparr>" by simp
    have "inv_account (s\<lparr>db := w, accepted := accepted s\<rparr>)"
      using inv by (fastforce simp: conc_inv_def inv_account_def w)
    moreover have "inv_claim (s\<lparr>db := w, accepted := accepted s\<rparr>)"
      using inv by (simp add: conc_inv_def inv_claim_def w)
    ultimately show ?thesis
      using inv ok Some by (auto simp: push_addressed(1) conc_inv_def db_ok_def inv_tx_def inv_permit_def w)
  qed
qed (auto intro: count_inv [OF inv] start_inv [OF inv] permit_inv [OF inv] claim_inv [OF inv] miss_inv [OF inv]
    commit_inv [OF inv] finish_inv [OF inv])

lemma conc_reachable_inv: "conc_reachable cfg s \<Longrightarrow> conc_inv s"
  by (induction rule: conc_reachable.induct) (auto intro: conc_inv_init conc_step_inv)

section \<open>Properties\<close>

lemma phase_row_cases: "phase_row ph = Some r \<longleftrightarrow> (\<exists>t p. ph = Claimed t p r) \<or> (\<exists>p. ph = Holding p r)"
  by (cases ph) auto

lemma held_not_claimed:
  assumes inv: "conc_inv s" and i: "wk s i = Claimed t p r" and j: "wk s j = Holding p' q"
  shows "row_id r \<noteq> row_id q"
proof
  assume id: "row_id r = row_id q"
  have wf: "wf_rows (queue_id_seq (db s)) (permits_id_seq (db s)) (queue (pool (db s)))"
    using db_okD(1) [OF conc_db_ok [OF inv]] by (simp add: store_inv_def wf_tables_def)
  have r: "r \<in> set (queue (pool (db s)))" "row_permit r = 0" using conc_invD(1) [OF inv i] by auto
  have "r = q\<lparr>row_permit := p'\<rparr>" by (rule wf_rows_id_inj [OF wf r(1) conc_invD(2) [OF inv j]]) (simp add: id)
  moreover have "0 < p'" using inv j unfolding conc_inv_def inv_permit_def by (metis phase_permit.simps(3))
  ultimately show False using r(2) by auto
qed

lemma held_apart:
  assumes inv: "conc_inv s" and i: "wk s i = Holding p r" and j: "wk s j = Holding p' q" and "i \<noteq> j"
  shows "row_id r \<noteq> row_id q"
proof
  assume id: "row_id r = row_id q"
  have wf: "wf_rows (queue_id_seq (db s)) (permits_id_seq (db s)) (queue (pool (db s)))"
    using db_okD(1) [OF conc_db_ok [OF inv]] by (simp add: store_inv_def wf_tables_def)
  have "r\<lparr>row_permit := p\<rparr> = q\<lparr>row_permit := p'\<rparr>"
    by (rule wf_rows_id_inj [OF wf conc_invD(2) [OF inv i] conc_invD(2) [OF inv j]]) (simp add: id)
  then have "row_permit (r\<lparr>row_permit := p\<rparr>) = row_permit (q\<lparr>row_permit := p'\<rparr>)" by (rule arg_cong)
  then have "p = p'" by simp
  then show False using inv i j assms(4) unfolding conc_inv_def inv_permit_def by (metis phase_permit.simps(3))
qed

text \<open>C1: Under any interleaving of pushes and of the statements of any number of workers, no row is
  claimed or worked on by two workers at once: the row lock taken by \<^verbatim>\<open>FOR UPDATE SKIP LOCKED\<close> protects
  it until the commit, the permit column after it.\<close>

theorem no_row_taken_twice:
  assumes "conc_reachable cfg s" and "i \<noteq> j"
    and "phase_row (wk s i) = Some r" and "phase_row (wk s j) = Some q"
  shows "row_id r \<noteq> row_id q"
  using assms(2-4) conc_invD(3) [OF conc_reachable_inv [OF assms(1)]]
    held_not_claimed [OF conc_reachable_inv [OF assms(1)]] held_apart [OF conc_reachable_inv [OF assms(1)]]
  unfolding phase_row_cases by metis

text \<open>C2: Under any such interleaving the pushed rows are, without loss and without duplication,
  the rows still in the table and the rows worked off: no row is worked off twice, a refused addressed
  push adds nothing, and nothing disappears.\<close>

theorem rows_are_conserved:
  assumes "conc_reachable cfg s"
  shows "distinct (finished s) \<and> set (accepted s) = row_id ` set (queue (pool (db s))) \<union> set (finished s)
    \<and> row_id ` set (queue (pool (db s))) \<inter> set (finished s) = {}"
  using conc_reachable_inv [OF assms] unfolding conc_inv_def inv_account_def by blast

text \<open>C17: Under any such interleaving the permit rows are the permits of the workers that
  are running work, no two of them the same, and a row carries a permit only while such a worker runs it:
  an empty pop leaves no permit behind.\<close>

theorem permits_are_not_leaked:
  assumes "conc_reachable cfg s"
  shows "distinct (queue_permits (pool (db s)))
    \<and> set (queue_permits (pool (db s))) = {p. \<exists>i r. wk s i = Holding p r}
    \<and> (\<forall>r \<in> set (queue (pool (db s))). row_permit r \<noteq> 0 \<longrightarrow> (\<exists>i q. wk s i = Holding (row_permit r) q \<and> row_id q = row_id r))"
proof (intro conjI ballI impI)
  note inv = conc_reachable_inv [OF assms]
  show "distinct (queue_permits (pool (db s)))"
    using db_okD(1) [OF conc_db_ok [OF inv]] by (simp add: store_inv_def wf_tables_def)
  show "set (queue_permits (pool (db s))) = {p. \<exists>i r. wk s i = Holding p r}"
    using conc_invD(5) [OF inv] by blast
  fix r
  assume r: "r \<in> set (queue (pool (db s)))" "row_permit r \<noteq> 0"
  then obtain i q where iq: "wk s i = Holding (row_permit r) q" using conc_invD(4) [OF inv] by blast
  then have "r = q\<lparr>row_permit := row_permit r\<rparr>" using held_row [OF inv iq] r by blast
  then have "row_id r = row_id (q\<lparr>row_permit := row_permit r\<rparr>)" by (rule arg_cong)
  with iq show "\<exists>i q. wk s i = Holding (row_permit r) q \<and> row_id q = row_id r" by auto
qed

lemma pop_steps:
  assumes inv: "conc_inv s" and i: "wk s i = Idle" and cfg: "cfg i = (name, mp, ts)" "ts \<noteq> []"
    and bound: "permits_id_seq (db s) + 1 < 2 ^ 63" and cand: "pop_candidate name mp ts (db s) = Some r"
  shows "(conc_step cfg)\<^sup>*\<^sup>* s (s\<lparr>
    db := (db s)\<lparr>pool := claim_tables (row_id r) (permits_id_seq (db s) + 1) (pool (db s)),
      permits_id_seq := permits_id_seq (db s) + 1, next_tx := Suc (next_tx (db s))\<rparr>,
    wk := (wk s)(i := Holding (permits_id_seq (db s) + 1) r)\<rparr>)"
proof -
  note ok = db_okD [OF conc_db_ok [OF inv]] and fresh = db_fresh [OF inv]
  define t p where "t = next_tx (db s)" and "p = permits_id_seq (db s) + 1"
  define u where "u = (db s)\<lparr>open_txs := AList.update t \<lparr>tx_log = [], tx_aborted = False\<rparr> (open_txs (db s)), next_tx := Suc t\<rparr>"
  define up where "up = (\<lambda>lg. u\<lparr>permits_id_seq := p, open_txs := AList.update t \<lparr>tx_log = lg, tx_aborted = False\<rparr> (open_txs u)\<rparr>)"
  define st where "st = (\<lambda>w ph. s\<lparr>db := w, wk := (wk s)(i := ph)\<rparr>)"
  have inu: "in_tx (pop_store t) t [] u"
    using ok(2) by (simp add: in_tx_def pop_store_def u_def update_conv')
  have inup: "in_tx (pop_store t) t lg (up lg)" for lg
    using ok(2) by (simp add: in_tx_def pop_store_def up_def u_def update_conv')
  have lk: "locked_rows (Some t) (up lg) = locked_rows None (db s)" for lg
    unfolding t_def by (rule locked_rows_own [OF fresh]) (simp_all add: up_def u_def t_def)
  have "pop_precount (newPgStore True) name mp ts (db s) =
      (Inr (length (filter (claimable name mp ts) (queue (pool (db s))))), db s)"
    using ok(2) by (simp add: pop_precount_def query_ok)
  moreover have "length (filter (claimable name mp ts) (queue (pool (db s)))) \<noteq> 0"
    using pop_candidate_Some(1,2) [OF cand] by (auto simp: filter_empty_conv)
  ultimately have 1: "conc_step cfg s (st (db s) Counted)"
    unfolding st_def by (rule conc_step.count [of s i cfg, OF i cfg])
  have "begin_tx (db s) = (Inr t, u)" using begin_tx_ok [OF ok(2)] by (simp add: u_def t_def)
  then have 2: "conc_step cfg (st (db s) Counted) (st u (Began t))"
    using conc_step.start [of "st (db s) Counted" i t u cfg] by (simp add: st_def)
  have "pop_permit (pop_store t) u = (Inr p, up [InsPermit p])"
    using pop_permit_tx [OF inu] by (simp add: up_def u_def p_def)
  moreover have "permits_id_seq u = permits_id_seq (db s)" by (simp add: u_def)
  ultimately have 3: "conc_step cfg (st u (Began t)) (st (up [InsPermit p]) (Permitted t p))"
    using conc_step.permit [of "st u (Began t)" i t p "up [InsPermit p]" cfg] bound by (simp add: st_def)
  have "pop_claim (pop_store t) p name mp ts (up [InsPermit p]) = (Inr r, up [InsPermit p, SetPermit (row_id r) p])"
    using cand pop_claim_tx [OF inup] lk by (simp add: up_def u_def pop_candidate_def)
  then have 4: "conc_step cfg (st (up [InsPermit p]) (Permitted t p)) (st (up [InsPermit p, SetPermit (row_id r) p]) (Claimed t p r))"
    using conc_step.claim [of "st (up [InsPermit p]) (Permitted t p)" i t p cfg name mp ts r] cfg(1) by (simp add: st_def)
  let ?w = "(db s)\<lparr>pool := claim_tables (row_id r) p (pool (db s)), permits_id_seq := p, next_tx := Suc t\<rparr>"
  have "AList.delete t (open_txs (up lg)) = open_txs (db s)" for lg
    using delete_update_fresh [OF fresh] by (simp add: up_def u_def t_def)
  then have "commit_tx t (up [InsPermit p, SetPermit (row_id r) p]) = (None, ?w)"
    unfolding commit_tx_ok [OF inup] by (simp add: up_def u_def claim_tables_def)
  then have 5: "conc_step cfg (st (up [InsPermit p, SetPermit (row_id r) p]) (Claimed t p r)) (st ?w (Holding p r))"
    using conc_step.commit [of "st (up [InsPermit p, SetPermit (row_id r) p]) (Claimed t p r)" i t p r ?w cfg] by (simp add: st_def)
  show ?thesis
    using converse_rtranclp_into_rtranclp [OF 1 converse_rtranclp_into_rtranclp [OF 2 converse_rtranclp_into_rtranclp [OF 3
        converse_rtranclp_into_rtranclp [OF 4 r_into_rtranclp [of "conc_step cfg", OF 5]]]]]
    by (simp add: st_def t_def p_def)
qed

text \<open>C16: A call of \<open>QueuePop\<close> that hands out work, made by an idle worker in any reachable state, is a run
  of the worker's steps: the statement-level model contains the sequential one.\<close>

theorem QueuePop_is_a_run:
  assumes "conc_reachable cfg s" and "wk s i = Idle" and "cfg i = (name, mp, ts)"
    and "permits_id_seq (db s) + 1 < 2 ^ 63"
    and "QueuePop (newPgStore True) name mp ts (db s) = (Inr work, w)"
  shows "\<exists>p r. work = work_of p r \<and> (conc_step cfg)\<^sup>*\<^sup>* s (s\<lparr>db := w, wk := (wk s)(i := Holding p r)\<rparr>)"
proof -
  note inv = conc_reachable_inv [OF assms(1)]
  have ts: "ts \<noteq> []" using assms(5) by (auto simp: QueuePop_def)
  obtain r where r: "pop_candidate name mp ts (db s) = Some r"
    and w: "work = work_of (permits_id_seq (db s) + 1) r"
      "w = (db s)\<lparr>pool := claim_tables (row_id r) (permits_id_seq (db s) + 1) (pool (db s)),
           permits_id_seq := permits_id_seq (db s) + 1, next_tx := Suc (next_tx (db s))\<rparr>"
    using assms(5) QueuePop_ok [OF newPgStore_tx(1) db_okD(2) [OF conc_db_ok [OF inv]] ts db_fresh [OF inv], of True name mp]
    by (auto split: if_splits option.splits)
  then show ?thesis using pop_steps [where cfg = cfg and i = i, OF inv assms(2,3) ts assms(4) r] by blast
qed

section \<open>A run with two workers\<close>

lemma reachable_run: "(conc_step cfg)\<^sup>*\<^sup>* s t \<Longrightarrow> conc_reachable cfg s \<Longrightarrow> conc_reachable cfg t"
  by (induction rule: rtranclp_induct) (auto intro: conc_reachable.step)

lemma small_codes: "int64_of_uint64 10 = 10" "int64_of_uint64 7 = 7"
  by (simp_all add: int64_of_uint64_def)

lemma two_push:
  "QueuePush (newPgStore True) benchQueueName None 10 7 (Inr JNull) None w = (None, newPgStore True,
     w\<lparr>queue_id_seq := queue_id_seq w + 1, pool := (pool w)\<lparr>queue := queue (pool w) @ [plain_row (queue_id_seq w + 1) 0]\<rparr>,
       notified := notified w @ [(queueReadyChannel, \<lparr>NotifyType = notifyTypeQueue\<rparr>)]\<rparr>)"
  if "faults w = []"
  using that by (simp add: QueuePush_def insert_queue_def record_dml_def Let_def queueNotify_plain plain_row_def
      small_codes)

lemma two_reachable_0: "conc_reachable two_cfg (two_conc 0 0)"
proof -
  let ?n = "(queueReadyChannel, \<lparr>NotifyType = notifyTypeQueue\<rparr>)"
  let ?w = "empty_world\<lparr>queue_id_seq := 1, pool := empty_tables\<lparr>queue := [plain_row 1 0]\<rparr>, notified := [?n]\<rparr>"
  have 1: "conc_step two_cfg init_conc (init_conc\<lparr>db := ?w, accepted := [1]\<rparr>)"
    using conc_step.push [OF two_push [of "db init_conc"], of two_cfg] by (simp add: init_conc_def empty_world_def empty_tables_def)
  have 2: "conc_step two_cfg (init_conc\<lparr>db := ?w, accepted := [1]\<rparr>) (two_conc 0 0)"
    using conc_step.push [OF two_push [of "db (init_conc\<lparr>db := ?w, accepted := [1]\<rparr>)"], of two_cfg]
    by (simp add: init_conc_def empty_world_def empty_tables_def two_conc_def two_db_def)
  show ?thesis
    using conc_reachable.init 1 2 by (blast intro: conc_reachable.step)
qed

lemma two_claimable: "claimable benchQueueName 10 [7] (plain_row i 0)"
  by (simp add: claimable_def plain_row_def small_codes)

lemma two_reachable_1: "conc_reachable two_cfg (two_conc 1 0)"
proof -
  have "pop_candidate benchQueueName 10 [7] (db (two_conc 0 0)) = Some (plain_row 1 0)"
    by (simp add: two_conc_def two_db_def pop_candidate_def empty_world_def locked_rows_def two_claimable)
       (simp add: row_before_def plain_row_def)
  from pop_steps [where cfg = two_cfg and i = 0, OF conc_reachable_inv [OF two_reachable_0] _ _ _ _ this]
  have "(conc_step two_cfg)\<^sup>*\<^sup>* (two_conc 0 0) (two_conc 1 0)"
    by (simp add: two_conc_def two_db_def two_cfg_def empty_world_def empty_tables_def claim_tables_def set_permit_def plain_row_def fun_upd_def numeral_2_eq_2 cong: if_cong)
  then show ?thesis using two_reachable_0 by (rule reachable_run)
qed

lemma two_candidate: "pop_candidate benchQueueName 10 [7] (db (two_conc 1 0)) = Some (plain_row 2 0)"
  using two_claimable [of 2]
  by (simp add: two_conc_def two_db_def pop_candidate_def empty_world_def locked_rows_def)
     (simp add: claimable_def plain_row_def)

lemma two_reachable_2: "conc_reachable two_cfg (two_conc 1 1)"
proof -
  from pop_steps [where cfg = two_cfg and i = 1, OF conc_reachable_inv [OF two_reachable_1] _ _ _ _ two_candidate]
  have "(conc_step two_cfg)\<^sup>*\<^sup>* (two_conc 1 0) (two_conc 1 1)"
    by (simp add: two_conc_def two_db_def two_cfg_def empty_world_def empty_tables_def claim_tables_def set_permit_def plain_row_def fun_upd_def numeral_2_eq_2 cong: if_cong)
  then show ?thesis using two_reachable_1 by (rule reachable_run)
qed

theorem no_row_taken_twice_witness: "row_id (plain_row 1 0) \<noteq> row_id (plain_row 2 0)"
  using no_row_taken_twice [of two_cfg "two_conc 1 1" 0 1 "plain_row 1 0" "plain_row 2 0"] two_reachable_2
  by (simp add: two_conc_def)

theorem rows_are_conserved_witness: "set (accepted (two_conc 1 1)) = row_id ` set (queue (pool (db (two_conc 1 1))))"
  using rows_are_conserved [OF two_reachable_2] by (simp add: two_conc_def)

theorem permits_are_not_leaked_witness: "{p. \<exists>i r. wk (two_conc 1 1) i = Holding p r} = {1, 2}"
  using permits_are_not_leaked [OF two_reachable_2]
  by (elim conjE) (simp add: two_conc_def two_db_def empty_tables_def)

theorem QueuePop_is_a_run_witness:
  "\<exists>p r. (conc_step two_cfg)\<^sup>*\<^sup>* (two_conc 1 0)
     ((two_conc 1 0)\<lparr>db := snd (QueuePop (newPgStore True) benchQueueName 10 [7] (two_db 1 0)),
       wk := (wk (two_conc 1 0))(1 := Holding p r)\<rparr>)"
proof -
  have "pop_candidate benchQueueName 10 [7] (two_db 1 0) = Some (plain_row 2 0)"
    using two_candidate by (simp add: two_conc_def)
  moreover have "claimable benchQueueName 10 [7] (plain_row 2 0)" by (rule two_claimable)
  ultimately have "\<exists>work w. QueuePop (newPgStore True) benchQueueName 10 [7] (two_db 1 0) = (Inr work, w)"
    using QueuePop_ok [of "newPgStore True" "two_db 1 0" "[7]" benchQueueName 10]
    by (simp add: two_db_def empty_world_def)
  then obtain work w where "QueuePop (newPgStore True) benchQueueName 10 [7] (two_db 1 0) = (Inr work, w)" by blast
  then show ?thesis
    using QueuePop_is_a_run [OF two_reachable_1, of 1 benchQueueName 10 "[7]" work w]
    by (auto simp: two_conc_def two_cfg_def) (auto simp: two_db_def)
qed

end
