(* ===== verification/Platlib_Retry.thy ===== *)
theory Platlib_Retry
  imports Platlib_Adapter Store_Concurrency
begin

text \<open>
  The platform-lib adapter on top of its store: a job is enqueued, popped, run, retried and deleted.
  The \<^verbatim>\<open>DatabaseQueue\<close> between them is not part of the repository; \<open>pushes_to_store\<close> states what the
  adapter relies on (a push hands the work's type code and JSON to \<open>QueuePush\<close>), and \<open>serve_one\<close> follows
  the comment in \<^verbatim>\<open>benchRunner.Run\<close>: the agent pops, runs, and removes the row whatever the runner returned.
\<close>

record 's bench_world =
  pg :: pg_world
  ran :: 's

definition pushes_to_store :: "'s bench_world deps \<Rightarrow> bool" where
  "pushes_to_store d \<longleftrightarrow> (\<forall>ctx pri g b w. \<exists>gid c.
     q_Push d ctx pri g b w =
       (case QueuePush (newPgStore True) benchQueueName gid pri (Type_benchWork b) (Inr (marshal_benchWork b)) c (pg w) of
          (e, s, v) \<Rightarrow> (e, w\<lparr>pg := v\<rparr>)))"

text \<open>One delivery. The first component is what the store or the runner returned.\<close>

definition serve_one ::
    "'s bench_world deps \<Rightarrow> Context \<Rightarrow> int \<Rightarrow> uint64 \<Rightarrow> uint64 list \<Rightarrow> 's bench_world Harness \<times> 's bench_world
     \<Rightarrow> (goerr + goerr option) \<times> 's bench_world Harness \<times> 's bench_world" where
  "serve_one d ctx now mp types hw =
     (case hw of (h, w) \<Rightarrow>
      (case QueuePop (newPgStore True) benchQueueName mp types (pg w) of
         (Inl e, v) \<Rightarrow> (Inl e, h, w\<lparr>pg := v\<rparr>)
       | (Inr work, v) \<Rightarrow>
           (case Run_platlib d ctx now (Work work) h (w\<lparr>pg := v\<rparr>) of
              (err, h', w') \<Rightarrow>
                (case QueueDelete (newPgStore True) (Permit work) (pg w') of
                   (e, s, v') \<Rightarrow> (Inr err, h', w'\<lparr>pg := v'\<rparr>)))))"

text \<open>
  A delivery and, if the runner left its retry to a back-off goroutine, the firing of that timer: until
  then the queue is empty and pops find nothing.
\<close>

definition deliver ::
    "'s bench_world deps \<Rightarrow> Context \<Rightarrow> int \<Rightarrow> uint64 \<Rightarrow> uint64 list \<Rightarrow> 's bench_world Harness \<times> 's bench_world
     \<Rightarrow> 's bench_world Harness \<times> 's bench_world" where
  "deliver d ctx now mp types hw = (case serve_one d ctx now mp types hw of (r, h, w) \<Rightarrow> retry_fires d h w)"

fun serve_times ::
    "nat \<Rightarrow> 's bench_world deps \<Rightarrow> Context \<Rightarrow> int \<Rightarrow> uint64 \<Rightarrow> uint64 list \<Rightarrow> 's bench_world Harness \<times> 's bench_world
     \<Rightarrow> 's bench_world Harness \<times> 's bench_world" where
  "serve_times 0 d ctx now mp types hw = hw"
| "serve_times (Suc n) d ctx now mp types hw = serve_times n d ctx now mp types (deliver d ctx now mp types hw)"

text \<open>
  A worker function that acts on the part of the world beside the database, and the one whose
  outcome depends on the attempt and that keeps the jobs it was given.
\<close>

definition lift_worker :: "(Context \<Rightarrow> Job \<Rightarrow> 's \<Rightarrow> goerr option \<times> 's) \<Rightarrow> 's bench_world WorkerFunc" where
  "lift_worker f ctx job w = (case f ctx job (ran w) of (r, s) \<Rightarrow> (r, w\<lparr>ran := s\<rparr>))"

definition scripted_worker :: "(int \<Rightarrow> goerr option) \<Rightarrow> Job list bench_world WorkerFunc" where
  "scripted_worker out = lift_worker (\<lambda>ctx job js. (out (job_Attempt job), js @ [job]))"

definition retryable :: "goerr option \<Rightarrow> bool" where
  "retryable r \<longleftrightarrow> (case r of None \<Rightarrow> False | Some e \<Rightarrow> IsSimulatedError e \<noteq> Some ErrorPermanent)"

text \<open>A database with nothing but the works \<open>bs\<close> waiting, and room for \<open>n\<close> more permits.\<close>

definition holds_works :: "uint64 \<Rightarrow> benchWork list \<Rightarrow> nat \<Rightarrow> pg_world \<Rightarrow> bool" where
  "holds_works pri bs n w \<longleftrightarrow> store_inv w \<and> faults w = [] \<and> open_txs w = []
     \<and> permits_id_seq w + int n < 2 ^ 63
     \<and> list_all2 (\<lambda>b r. row_item r = marshal_benchWork b \<and> row_name r = benchQueueName \<and> row_permit r = 0
          \<and> row_priority r = int64_of_uint64 pri \<and> row_type r = int64_of_uint64 (Type_benchWork b)) bs (queue (pool w))"

definition job_of :: "'s bench_world deps \<Rightarrow> int \<Rightarrow> benchWork \<Rightarrow> UUID \<Rightarrow> Job" where
  "job_of d now b t = \<lparr>job_ID = Address_benchWork b, job_TenantID = t, job_Kind = KindStr b,
     job_Payload = bw_Payload b, job_Attempt = bw_Attempt b, EnqueuedAt = now\<rparr>"

definition store_deps :: "'s bench_world deps" where
  "store_deps = \<lparr>uuid_String = (\<lambda>u. dec_of_nat (unat u)), uuid_Parse = (\<lambda>s. Inr (of_nat (nat_of_dec s))),
     q_Push = (\<lambda>ctx pri g b w.
       case QueuePush (newPgStore True) benchQueueName None pri (Type_benchWork b) (Inr (marshal_benchWork b)) None (pg w) of
         (e, s, v) \<Rightarrow> (e, w\<lparr>pg := v\<rparr>)),
     q_AddressedPush = (\<lambda>ctx pri g a b w.
       case QueuePushAddressed (newPgStore True) benchQueueName None pri (Type_benchWork b) a (Inr (marshal_benchWork b)) None (pg w) of
         (e, s, v) \<Rightarrow> (e, w\<lparr>pg := v\<rparr>))\<rparr>"

definition retry_harness :: "Job list bench_world Harness" where
  "retry_harness = \<lparr>cfg = sample_config\<lparr>MaxAttempts := 3\<rparr>, opts = \<lparr>DefaultPriority = 10, UseAddressedPush = False, BackoffFn = Some ExponentialBackoffRiverLike\<rparr>,
     workers = [(''k'', scripted_worker (\<lambda>a. if a < 3 then Some (SimulatedError ErrorRateLimit ''slow down'') else None))], started = True,
     agent = Some [(10, 4)], factory = Some [(kindCode ''k'', ''k'')],
     stopCh = False, pool_open = True, lf_open = True, retries = []\<rparr>"


section \<open>Facts\<close>

lemma holds_split:
  assumes "holds_works pri bs n w" and "r \<in> set (queue (pool w))"
  obtains bs1 b bs2 rs1 rs2 where "bs = bs1 @ b # bs2" and "queue (pool w) = rs1 @ r # rs2" and "length rs1 = length bs1"
    and "row_item r = marshal_benchWork b"
proof -
  obtain rs1 rs2 where q: "queue (pool w) = rs1 @ r # rs2" using assms(2) by (meson split_list)
  with assms(1) obtain bs1 b bs2 where "bs = bs1 @ b # bs2" "length rs1 = length bs1" "row_item r = marshal_benchWork b"
    unfolding holds_works_def by (auto simp: list_all2_append2 list_all2_Cons2)
  with q show ?thesis by (intro that)
qed

lemma holds_claimable:
  assumes "holds_works pri bs n w" and "\<forall>b \<in> set bs. Type_benchWork b \<in> set types" and "r \<in> set (queue (pool w))"
  shows "claimable benchQueueName pri types r"
proof -
  have all: "list_all2 (\<lambda>b r. row_item r = marshal_benchWork b \<and> row_name r = benchQueueName \<and> row_permit r = 0
          \<and> row_priority r = int64_of_uint64 pri \<and> row_type r = int64_of_uint64 (Type_benchWork b)) bs (queue (pool w))"
    using assms(1) by (simp add: holds_works_def)
  obtain i where i: "i < length (queue (pool w))" "r = queue (pool w) ! i" using assms(3) by (auto simp: in_set_conv_nth)
  then have "Type_benchWork (bs ! i) \<in> set types" using assms(2) list_all2_lengthD [OF all] by auto
  with list_all2_nthD2 [OF all i(1)] show ?thesis by (auto simp: claimable_def i(2))
qed

lemma pop_one:
  assumes h: "holds_works pri bs (Suc n) w" and t: "\<forall>b \<in> set bs. Type_benchWork b \<in> set types" and ne: "bs \<noteq> []"
  obtains r p v bs1 b bs2 rs1 rs2 where "QueuePop (newPgStore True) benchQueueName pri types w = (Inr (work_of p r), v)"
    and "p = permits_id_seq w + 1" and "row_item r = marshal_benchWork b"
    and "v = w\<lparr>pool := claim_tables (row_id r) p (pool w), permits_id_seq := p, next_tx := Suc (next_tx w)\<rparr>"
    and "bs = bs1 @ b # bs2" and "queue (pool w) = rs1 @ r # rs2" and "length rs1 = length bs1"
proof -
  have w: "store_inv w" "faults w = []" "open_txs w = []" "length bs = length (queue (pool w))"
    using h by (auto simp: holds_works_def dest: list_all2_lengthD)
  have c: "filter (claimable benchQueueName pri types) (queue (pool w)) = queue (pool w)"
    using holds_claimable [OF h t] by (simp add: filter_id_conv)
  have q: "queue (pool w) \<noteq> []" using w(4) ne by auto
  then obtain r where r: "order_limit1 (queue (pool w)) = Some r" by (meson not_None_eq order_limit1_None)
  have ts: "types \<noteq> []" using t ne by (cases bs) auto
  have "pop_candidate benchQueueName pri types w = Some r"
    using c r by (simp add: pop_candidate_def w locked_rows_def)
  then have pop: "QueuePop (newPgStore True) benchQueueName pri types w = (Inr (work_of (permits_id_seq w + 1) r),
      w\<lparr>pool := claim_tables (row_id r) (permits_id_seq w + 1) (pool w), permits_id_seq := permits_id_seq w + 1, next_tx := Suc (next_tx w)\<rparr>)"
    using QueuePop_ok [OF newPgStore_tx(1) w(2) ts store_inv_fresh [OF w(1)], of True benchQueueName pri] q by (simp add: c)
  have "r \<in> set (queue (pool w))" using order_limit1_Some [OF r] by blast
  from holds_split [OF h this] pop show ?thesis by (metis that)
qed

text \<open>The world after the pop, with the retry that the runner pushes or without, and after the deletion.\<close>

lemma delete_after_pop:
  assumes h: "holds_works pri (bs1 @ b # bs2) (Suc n) w" and q: "queue (pool w) = rs1 @ r # rs2" and len: "length rs1 = length bs1"
    and p: "p = permits_id_seq w + 1"
    and v: "v = w\<lparr>pool := claim_tables (row_id r) p (pool w), permits_id_seq := p, next_tx := Suc (next_tx w)\<rparr>"
    and u: "u = v \<or> QueuePush (newPgStore True) benchQueueName gid pri (Type_benchWork b') (Inr (marshal_benchWork b')) c v = (None, s', u)"
    and ok: "store_inv v"
    and del: "QueueDelete (newPgStore True) (Permit (work_of p r)) u = (e, s'', x)"
  shows "holds_works pri (bs1 @ bs2 @ (if u = v then [] else [b'])) n x"
proof -
  have w: "store_inv w" "faults w = []" "open_txs w = []" "permits_id_seq w + int (Suc n) < 2 ^ 63"
    using h by (auto simp: holds_works_def)
  let ?ok = "\<lambda>b r. row_item r = marshal_benchWork b \<and> row_name r = benchQueueName \<and> row_permit r = 0
          \<and> row_priority r = int64_of_uint64 pri \<and> row_type r = int64_of_uint64 (Type_benchWork b)"
  have rest: "list_all2 ?ok bs1 rs1" "list_all2 ?ok bs2 rs2"
    using h len unfolding holds_works_def q by (simp_all add: list_all2_append)
  have unclaimed: "\<forall>a \<in> set (rs1 @ rs2). row_permit a = 0"
    using rest by (auto simp: list_all2_conv_all_nth in_set_conv_nth)
  have "row_id r \<notin> row_id ` set (rs1 @ rs2)"
    using w(1) unfolding store_inv_def wf_tables_def wf_rows_def q by auto
  then have ids: "\<forall>a \<in> set (rs1 @ rs2). row_id a \<noteq> row_id r" by (metis imageI)
  have p0: "0 < p" "p < 2 ^ 63" using w(1,4) p by (auto simp: store_inv_def wf_tables_def)
  then have ip: "int64_of_uint64 (Permit (work_of p r)) = p"
    by (simp add: work_of_def int64_uint64_roundtrip in_int64_def)
  have fv: "faults v = []" "open_txs v = []" using w by (simp_all add: v)
  have pv: "permits_id_seq v = p" by (simp add: v)
  have same: "map (set_permit (row_id r) p) rs = rs" if "set rs \<subseteq> set (rs1 @ rs2)" for rs
    using that ids by (intro map_idI) (auto simp: set_permit_def)
  have qv: "queue (pool v) = rs1 @ r\<lparr>row_permit := p\<rparr> # rs2"
    using same [of rs1] same [of rs2] by (simp add: v q) (simp add: set_permit_def)
  have keep: "filter (\<lambda>a. row_permit a \<noteq> p) rs = rs" if "set rs \<subseteq> set (rs1 @ rs2)" for rs
    using that unclaimed p0(1) by (intro filter_eq_self) auto
  have kept: "filter (\<lambda>a. row_permit a \<noteq> p) rs1 = rs1" "filter (\<lambda>a. row_permit a \<noteq> p) rs2 = rs2"
    by (rule keep; simp)+
  show ?thesis
  proof (cases "u = v")
    case True
    have x: "x = v\<lparr>pool := apply_dml (DelPermit p) (apply_dml (DelQueueByPermit p) (pool v)), notified := notified x\<rparr>"
      using QueueDelete_plain [OF fv(1) del [unfolded True]] ip by simp
    have "store_inv x" using QueueDelete_inv [OF newPgStore_tx(1) ok] del True by (metis snd_conv)
    moreover have "queue (pool x) = rs1 @ rs2" "faults x = []" "open_txs x = []" "permits_id_seq x = p"
      by (subst x, simp add: qv fv pv kept)+
    ultimately show ?thesis using True w(4) p rest by (simp add: holds_works_def list_all2_appendI)
  next
    case False
    with u have push: "QueuePush (newPgStore True) benchQueueName gid pri (Type_benchWork b') (Inr (marshal_benchWork b')) c v = (None, s', u)"
      by blast
    let ?r = "new_row (queue_id_seq v + 1) benchQueueName gid pri (Type_benchWork b') (marshal_benchWork b') None c"
    have u': "u = v\<lparr>queue_id_seq := queue_id_seq v + 1, pool := (pool v)\<lparr>queue := queue (pool v) @ [?r]\<rparr>, notified := notified u\<rparr>"
      using QueuePush_plain [OF fv(1) push] by simp
    have fu: "faults u = []" "open_txs u = []" "permits_id_seq u = p" "queue (pool u) = rs1 @ r\<lparr>row_permit := p\<rparr> # rs2 @ [?r]"
      by (subst u', simp add: fv qv pv)+
    have su: "store_inv u" using QueuePush_inv [OF newPgStore_tx(1) ok] push by (metis snd_conv)
    have x: "x = u\<lparr>pool := apply_dml (DelPermit p) (apply_dml (DelQueueByPermit p) (pool u)), notified := notified x\<rparr>"
      using QueueDelete_plain [OF fu(1) del] ip by simp
    have "store_inv x" using QueueDelete_inv [OF newPgStore_tx(1) su] del by (metis snd_conv)
    moreover have "queue (pool x) = rs1 @ rs2 @ [?r]" "faults x = []" "open_txs x = []" "permits_id_seq x = p"
      by (subst x, use p0 kept in \<open>simp add: fu\<close>)+
    ultimately show ?thesis using False w(4) p rest by (simp add: holds_works_def new_row_def list_all2_appendI)
  qed
qed

lemma bench_world_eq: "(w :: 's bench_world)\<lparr>pg := v, ran := x\<rparr> = \<lparr>pg = v, ran = x\<rparr>"
  by (cases w) simp

lemma push_to_store:
  assumes "pushes_to_store d" and "faults (pg w) = []"
  obtains gid c s' u where "q_Push d ctx pri g b w = (None, w\<lparr>pg := u\<rparr>)"
    and "QueuePush (newPgStore True) benchQueueName gid pri (Type_benchWork b) (Inr (marshal_benchWork b)) c (pg w) = (None, s', u)"
    and "u \<noteq> pg w"
proof -
  obtain gid c where q: "q_Push d ctx pri g b w =
       (case QueuePush (newPgStore True) benchQueueName gid pri (Type_benchWork b) (Inr (marshal_benchWork b)) c (pg w) of
          (e, s, v) \<Rightarrow> (e, w\<lparr>pg := v\<rparr>))"
    using assms(1) unfolding pushes_to_store_def by blast
  obtain e s' u where p: "QueuePush (newPgStore True) benchQueueName gid pri (Type_benchWork b) (Inr (marshal_benchWork b)) c (pg w) = (e, s', u)"
    by (metis prod_cases3)
  note qp = QueuePush_plain [OF assms(2) p]
  have e: "e = None" using qp by (rule conjunct1)
  have "queue_id_seq u = queue_id_seq (pg w) + 1" by (subst conjunct2 [OF qp]) simp
  then have "u \<noteq> pg w" by auto
  with p q e show ?thesis by (intro that [of u gid c s']) simp_all
qed

lemma push_onto:
  assumes "pushes_to_store d" and "holds_works pri bs n (pg w)"
  obtains u where "q_Push d ctx pri g b w = (None, w\<lparr>pg := u\<rparr>)" and "holds_works pri (bs @ [b]) n u"
proof -
  have f: "faults (pg w) = []" "store_inv (pg w)"
    using assms(2) by (auto simp: holds_works_def)
  obtain gid c s' u where q: "q_Push d ctx pri g b w = (None, w\<lparr>pg := u\<rparr>)"
    "QueuePush (newPgStore True) benchQueueName gid pri (Type_benchWork b) (Inr (marshal_benchWork b)) c (pg w) = (None, s', u)"
    by (rule push_to_store [OF assms(1) f(1), of ctx pri g b]) blast
  let ?r = "new_row (queue_id_seq (pg w) + 1) benchQueueName gid pri (Type_benchWork b) (marshal_benchWork b) None c"
  have u: "u = (pg w)\<lparr>queue_id_seq := queue_id_seq (pg w) + 1, pool := (pool (pg w))\<lparr>queue := queue (pool (pg w)) @ [?r]\<rparr>, notified := notified u\<rparr>"
    using QueuePush_plain [OF f(1) q(2)] by simp
  have fu: "faults u = []" "open_txs u = open_txs (pg w)" "permits_id_seq u = permits_id_seq (pg w)" "queue (pool u) = queue (pool (pg w)) @ [?r]"
    by (subst u, simp add: f)+
  have "store_inv u" using QueuePush_inv [OF newPgStore_tx(1) f(2)] q(2) by (metis snd_conv)
  then have "holds_works pri (bs @ [b]) n u"
    using assms(2) fu by (simp add: holds_works_def new_row_def list_all2_appendI)
  with q(1) show ?thesis by (rule that)
qed

text \<open>
  A work that the harness can run: its payload survives the round trip, the agent takes its type, its tenant
  can be read back, and its kind has the worker \<open>f\<close>.
\<close>

definition servable :: "'s bench_world deps \<Rightarrow> 's bench_world Harness \<Rightarrow> uint64 list
    \<Rightarrow> (Context \<Rightarrow> Job \<Rightarrow> 's \<Rightarrow> goerr option \<times> 's) \<Rightarrow> (string \<Rightarrow> UUID) \<Rightarrow> benchWork \<Rightarrow> bool" where
  "servable d h types f tid b \<longleftrightarrow> wf_work b \<and> Type_benchWork b \<in> set types
     \<and> uuid_Parse d (TenantIDStr b) = Inr (tid (TenantIDStr b)) \<and> map_of (workers h) (KindStr b) = Some (lift_worker f)"

text \<open>One delivery takes one of the waiting works, runs it, and leaves the others and its retry, if it has one.\<close>

lemma deliver_work:
  fixes tid :: "string \<Rightarrow> UUID"
  assumes d: "pushes_to_store d" and sv: "\<forall>b \<in> set bs. servable d h types f tid b" and ne: "bs \<noteq> []"
    and out: "\<And>b s. b \<in> set bs \<Longrightarrow> fst (f ctx (job_of d now b (tid (TenantIDStr b))) s) = o' b" and bo: "retries h = []"
    and mx: "in_int32 (MaxAttempts (cfg h))"
    and hw: "holds_works (DefaultPriority (opts h)) bs (Suc n) (pg w)"
  defines "again \<equiv> \<lambda>b. retryable (o' b) \<and> bw_Attempt b < MaxAttempts (cfg h)"
  obtains bs1 b bs2 u where "bs = bs1 @ b # bs2"
    and "deliver d ctx now (DefaultPriority (opts h)) types (h, w) =
        (h, \<lparr>pg = u, ran = snd (f ctx (job_of d now b (tid (TenantIDStr b))) (ran w))\<rparr>)"
    and "holds_works (DefaultPriority (opts h)) (bs1 @ bs2 @ (if again b then [b\<lparr>bw_Attempt := bw_Attempt b + 1\<rparr>] else [])) n u"
proof -
  let ?pri = "DefaultPriority (opts h)"
  have ty: "\<forall>b \<in> set bs. Type_benchWork b \<in> set types" using sv by (simp add: servable_def)
  obtain r p v bs1 b bs2 rs1 rs2 where pop: "QueuePop (newPgStore True) benchQueueName ?pri types (pg w) = (Inr (work_of p r), v)"
    and p: "p = permits_id_seq (pg w) + 1" and item: "row_item r = marshal_benchWork b"
    and v: "v = (pg w)\<lparr>pool := claim_tables (row_id r) p (pool (pg w)), permits_id_seq := p, next_tx := Suc (next_tx (pg w))\<rparr>"
    and bs: "bs = bs1 @ b # bs2" and q: "queue (pool (pg w)) = rs1 @ r # rs2" and len: "length rs1 = length bs1"
    by (rule pop_one [OF hw ty ne])
  let ?b = "b\<lparr>bw_Attempt := bw_Attempt b + 1\<rparr>" and ?tid = "tid (TenantIDStr b)"
  have b: "b \<in> set bs" by (simp add: bs)
  have wf: "wf_work b" and t: "uuid_Parse d (TenantIDStr b) = Inr ?tid" and fn: "map_of (workers h) (KindStr b) = Some (lift_worker f)"
    using sv b by (simp_all add: servable_def)
  have hb: "holds_works ?pri (bs1 @ b # bs2) (Suc n) (pg w)" using hw by (simp add: bs)
  have ok: "store_inv v" "faults v = []"
    using hw QueuePop_inv [OF newPgStore_tx(1), of "pg w" True benchQueueName ?pri types] pop
    by (auto simp: holds_works_def v)
  define w1 where "w1 = \<lparr>pg = v, ran = snd (f ctx (job_of d now b ?tid) (ran w))\<rparr>"
  note del_pop = delete_after_pop [OF hb q len p v _ ok(1)]
  have run: "Run_platlib d ctx now (Work (work_of p r)) h (w\<lparr>pg := v\<rparr>) =
      (case o' b of None \<Rightarrow> (None, h, w1) | Some e \<Rightarrow> retry_policy d ctx b e h w1)"
    using benchWork_roundtrip' [OF wf] t fn out [OF b, of "ran w"]
    by (simp add: Run_platlib_def work_of_def item lift_worker_def job_of_def w1_def bench_world_eq case_prod_beta split: option.split)
  have "\<exists>u. deliver d ctx now ?pri types (h, w) = (h, w1\<lparr>pg := u\<rparr>) \<and> holds_works ?pri (bs1 @ bs2 @ (if again b then [?b] else [])) n u"
  proof (cases "again b")
    case again: True
    then obtain e where e: "o' b = Some e" "IsSimulatedError e \<noteq> Some ErrorPermanent"
      and lt: "bw_Attempt b < MaxAttempts (cfg h)"
      unfolding again_def retryable_def by (auto split: option.splits)
    have i32: "int32_of (MaxAttempts (cfg h)) = MaxAttempts (cfg h)" "int32_of (bw_Attempt b + 1) = bw_Attempt b + 1"
      using mx wf lt by (simp_all add: in_int32_def wf_work_def)
    let ?delay = "case BackoffFn (opts h) of None \<Rightarrow> 0 | Some b \<Rightarrow> b (bw_Attempt ?b)"
    show ?thesis
    proof (cases "BackoffFn (opts h) \<noteq> None \<and> ?delay > 0")
      case True
      then have rp: "retry_policy d ctx b e h w1 = (None, h\<lparr>retries := [(?b, ?delay)]\<rparr>, w1)"
        using e(2) lt bo by (simp add: retry_policy_def i32 Let_def)
      obtain e' s'' x where del: "QueueDelete (newPgStore True) (Permit (work_of p r)) v = (e', s'', x)" by (metis prod_cases3)
      have x: "holds_works ?pri (bs1 @ bs2) n x"
        using del_pop [OF _ del, of None b None "newPgStore True"] by simp
      have srv: "serve_one d ctx now ?pri types (h, w) = (Inr None, h\<lparr>retries := [(?b, ?delay)]\<rparr>, w1\<lparr>pg := x\<rparr>)"
        using del by (simp add: serve_one_def pop run e(1) rp) (simp add: w1_def)
      have h: "h\<lparr>retries := []\<rparr> = h" using bo by (metis Harness.surjective Harness.update_convs(10))
      obtain u where u: "q_Push d Background ?pri 0 ?b (w1\<lparr>pg := x\<rparr>) = (None, w1\<lparr>pg := x, pg := u\<rparr>)" "holds_works ?pri (bs1 @ bs2 @ [?b]) n u"
        using push_onto [OF d, of ?pri "bs1 @ bs2" n "w1\<lparr>pg := x\<rparr>" Background 0 ?b] x by auto
      have "deliver d ctx now ?pri types (h, w) = (h, w1\<lparr>pg := u\<rparr>)"
        using u(1) by (simp add: deliver_def srv h)
      then show ?thesis using u(2) again by (intro exI [of _ u]) (simp add: w1_def)
    next
      case False
      have f1: "faults (pg w1) = []" by (simp add: w1_def ok)
      obtain gid c s' u where pu: "q_Push d ctx ?pri 0 ?b w1 = (None, w1\<lparr>pg := u\<rparr>)"
        "QueuePush (newPgStore True) benchQueueName gid ?pri (Type_benchWork ?b) (Inr (marshal_benchWork ?b)) c (pg w1) = (None, s', u)"
        "u \<noteq> pg w1"
        by (rule push_to_store [OF d f1, of ctx ?pri 0 ?b])
      have rp: "retry_policy d ctx b e h w1 = (None, h, w1\<lparr>pg := u\<rparr>)"
        using e(2) lt False pu(1) by (auto simp: retry_policy_def i32 Let_def)
      obtain e' s'' x where del: "QueueDelete (newPgStore True) (Permit (work_of p r)) u = (e', s'', x)" by (metis prod_cases3)
      have "holds_works ?pri (bs1 @ bs2 @ [?b]) n x"
        using del_pop [OF _ del, of gid ?b c s'] pu by (simp add: w1_def)
      moreover have "serve_one d ctx now ?pri types (h, w) = (Inr None, h, w1\<lparr>pg := x\<rparr>)"
        using del by (simp add: serve_one_def pop run e(1) rp)
      ultimately show ?thesis
        using again bo by (intro exI [of _ x]) (simp add: deliver_def w1_def)
    qed
  next
    case False
    have r0: "Run_platlib d ctx now (Work (work_of p r)) h (w\<lparr>pg := v\<rparr>) = (o' b, h, w1)"
      using False mx by (auto simp: run again_def retryable_def retry_policy_def split: option.split)
    obtain e' s'' x where del: "QueueDelete (newPgStore True) (Permit (work_of p r)) v = (e', s'', x)" by (metis prod_cases3)
    have "holds_works ?pri (bs1 @ bs2) n x"
      using del_pop [OF _ del, of None b None "newPgStore True"] by simp
    moreover have "serve_one d ctx now ?pri types (h, w) = (Inr (o' b), h, w1\<lparr>pg := x\<rparr>)"
      using del r0 by (simp add: serve_one_def pop) (simp add: w1_def)
    ultimately show ?thesis
      using False bo by (intro exI [of _ x]) (simp add: deliver_def w1_def)
  qed
then show ?thesis using bs by (auto simp: w1_def intro: that)
qed

lemma deliver_one:
  assumes d: "pushes_to_store d" and sv: "servable d h types f (\<lambda>_. tid) b"
    and out: "\<And>s. fst (f ctx (job_of d now b tid) s) = o'" and bo: "retries h = []"
    and mx: "in_int32 (MaxAttempts (cfg h))"
    and hw: "holds_works (DefaultPriority (opts h)) [b] (Suc n) (pg w)"
  defines "again \<equiv> retryable o' \<and> bw_Attempt b < MaxAttempts (cfg h)"
  shows "\<exists>u. deliver d ctx now (DefaultPriority (opts h)) types (h, w) =
        (h, \<lparr>pg = u, ran = snd (f ctx (job_of d now b tid) (ran w))\<rparr>)
    \<and> holds_works (DefaultPriority (opts h)) (if again then [b\<lparr>bw_Attempt := bw_Attempt b + 1\<rparr>] else []) n u"
proof -
  have "\<forall>x \<in> set [b]. servable d h types f (\<lambda>_. tid) x" using sv by simp
  moreover have "\<And>x s. x \<in> set [b] \<Longrightarrow> fst (f ctx (job_of d now x tid) s) = o'" using out by simp
  ultimately obtain bs1 x bs2 u where x: "[b] = bs1 @ x # bs2"
    and dl: "deliver d ctx now (DefaultPriority (opts h)) types (h, w) = (h, \<lparr>pg = u, ran = snd (f ctx (job_of d now x tid) (ran w))\<rparr>)"
    and hx: "holds_works (DefaultPriority (opts h)) (bs1 @ bs2 @ (if retryable o' \<and> bw_Attempt x < MaxAttempts (cfg h)
       then [x\<lparr>bw_Attempt := bw_Attempt x + 1\<rparr>] else [])) n u"
    using deliver_work [OF d _ _ _ bo mx hw, of types f "\<lambda>_. tid" ctx now "\<lambda>_. o'"] by blast
  have "bs1 = [] \<and> x = b \<and> bs2 = []" using x by (cases bs1) auto
  with dl hx show ?thesis unfolding again_def by auto
qed

lemma serve_times_work:
  assumes d: "pushes_to_store d" and t: "uuid_Parse d (TenantIDStr b) = Inr tid"
    and fn: "map_of (workers h) (KindStr b) = Some (lift_worker f)"
    and out: "\<And>j s. fst (f ctx (job_of d now (b\<lparr>bw_Attempt := j\<rparr>) tid) s) = out j" and bo: "retries h = []"
    and mx: "in_int32 (MaxAttempts (cfg h))" and ty: "kindCode (KindStr b) \<in> set types"
    and again: "\<And>j. a \<le> j \<Longrightarrow> j < a + int n \<Longrightarrow> retryable (out j)"
    and last: "a + int n = MaxAttempts (cfg h) \<or> a + int n < MaxAttempts (cfg h) \<and> \<not> retryable (out (a + int n))"
    and pl: "wf_payload (bw_Payload b)" and a: "1 \<le> a"
    and hw: "holds_works (DefaultPriority (opts h)) [b\<lparr>bw_Attempt := a\<rparr>] (Suc n) (pg w)"
  shows "\<exists>u. serve_times (Suc n) d ctx now (DefaultPriority (opts h)) types (h, w) =
       (h, \<lparr>pg = u, ran = fold (\<lambda>j s. snd (f ctx (job_of d now (b\<lparr>bw_Attempt := j\<rparr>) tid) s)) [a..a + int n] (ran w)\<rparr>)
     \<and> queue (pool u) = []"
  using again last a hw
proof (induction n arbitrary: a w)
  case 0
  let ?b = "b\<lparr>bw_Attempt := a\<rparr>"
  have wf: "wf_work ?b" using 0 mx pl by (auto simp: wf_work_def in_int32_def)
  have no: "(retryable (out (bw_Attempt ?b)) \<and> bw_Attempt ?b < MaxAttempts (cfg h)) = False" using 0 by auto
  have sv: "servable d h types f (\<lambda>_. tid) ?b" using wf ty t fn by (simp add: servable_def Type_benchWork_def)
  have out': "\<And>s. fst (f ctx (job_of d now ?b tid) s) = out (bw_Attempt ?b)" using out by simp
  obtain u where "deliver d ctx now (DefaultPriority (opts h)) types (h, w) =
        (h, \<lparr>pg = u, ran = snd (f ctx (job_of d now ?b tid) (ran w))\<rparr>)"
      "holds_works (DefaultPriority (opts h)) [] 0 u"
    using deliver_one [OF d sv out' bo mx 0(4)] unfolding no if_False by blast
  then show ?case by (simp add: holds_works_def)
next
  case (Suc n)
  let ?b = "b\<lparr>bw_Attempt := a\<rparr>"
  have wf: "wf_work ?b" using Suc.prems mx pl by (auto simp: wf_work_def in_int32_def)
  have yes: "(retryable (out (bw_Attempt ?b)) \<and> bw_Attempt ?b < MaxAttempts (cfg h)) = True" using Suc.prems by auto
  have sv: "servable d h types f (\<lambda>_. tid) ?b" using wf ty t fn by (simp add: servable_def Type_benchWork_def)
  have out': "\<And>s. fst (f ctx (job_of d now ?b tid) s) = out (bw_Attempt ?b)" using out by simp
  have nxt: "?b\<lparr>bw_Attempt := bw_Attempt ?b + 1\<rparr> = b\<lparr>bw_Attempt := a + 1\<rparr>" by simp
  obtain u where 1: "deliver d ctx now (DefaultPriority (opts h)) types (h, w) =
        (h, \<lparr>pg = u, ran = snd (f ctx (job_of d now ?b tid) (ran w))\<rparr>)"
      and hu: "holds_works (DefaultPriority (opts h)) [b\<lparr>bw_Attempt := a + 1\<rparr>] (Suc n) u"
    using deliver_one [OF d sv out' bo mx Suc.prems(4)] unfolding yes if_True nxt by blast
  have "\<exists>v. serve_times (Suc n) d ctx now (DefaultPriority (opts h)) types (h, \<lparr>pg = u, ran = snd (f ctx (job_of d now ?b tid) (ran w))\<rparr>) =
       (h, \<lparr>pg = v, ran = fold (\<lambda>j s. snd (f ctx (job_of d now (b\<lparr>bw_Attempt := j\<rparr>) tid) s)) [a + 1..a + 1 + int n] (snd (f ctx (job_of d now ?b tid) (ran w)))\<rparr>)
     \<and> queue (pool v) = []"
    using Suc.IH [of "a + 1" "\<lparr>pg = u, ran = snd (f ctx (job_of d now ?b tid) (ran w))\<rparr>"] Suc.prems(1-3) hu by (simp add: add.assoc)
  moreover have "[a..a + int (Suc n)] = a # [a + 1..a + 1 + int n]"
    by (subst upto_rec1) (simp_all add: add.assoc)
  ultimately show ?case using 1 by (simp del: upto.simps)
qed

text \<open>The job a worker is given on attempt \<open>j\<close> of the first work enqueued after the counter was \<open>ctr\<close>.\<close>

definition attempt_job :: "uint64 \<Rightarrow> UUID \<Rightarrow> Kind \<Rightarrow> JobPayload \<Rightarrow> int \<Rightarrow> int \<Rightarrow> Job" where
  "attempt_job ctr tenant kind p now j = \<lparr>job_ID = job_id_at ctr 1, job_TenantID = tenant, job_Kind = kind,
     job_Payload = p, job_Attempt = j, EnqueuedAt = now\<rparr>"

lemma enqueue_then_serve:
  assumes "pushes_to_store d" and "uuid_Parse d (uuid_String d tenant) = Inr tenant"
    and "started h" and "map_of (workers h) kind = Some (lift_worker f)"
    and "retries h = []" and "\<not> UseAddressedPush (opts h)"
    and "MaxAttempts (cfg h) < 2 ^ 31" and "wf_payload p" and "kindCode kind \<in> set types"
    and "holds_works (DefaultPriority (opts h)) [] (Suc n) (pg w)"
    and "\<forall>j. 1 \<le> j \<and> j < int (Suc n) \<longrightarrow> retryable (out j)"
    and "int (Suc n) = MaxAttempts (cfg h) \<or> int (Suc n) < MaxAttempts (cfg h) \<and> \<not> retryable (out (int (Suc n)))"
    and "Enqueue_platlib d h ctx tenant kind p (ctr, w) = (res, ctr', w1)"
    and out: "\<And>j s. fst (f ctx (attempt_job ctr tenant kind p now j) s) = out j"
  shows "res = Inr (job_id_at ctr 1) \<and>
    (\<exists>u. serve_times (Suc n) d ctx now (DefaultPriority (opts h)) types (h, w1) =
       (h, \<lparr>pg = u, ran = fold (\<lambda>j s. snd (f ctx (attempt_job ctr tenant kind p now j) s)) [1..int (Suc n)] (ran w)\<rparr>)
     \<and> queue (pool u) = [])"
proof -
  let ?pri = "DefaultPriority (opts h)"
  let ?b = "\<lparr>WorkID = ctr + 1, TenantIDStr = uuid_String d tenant, KindStr = kind, bw_Attempt = 1, bw_Payload = p\<rparr>"
  obtain u where q: "q_Push d ctx ?pri 0 ?b w = (None, w\<lparr>pg := u\<rparr>)" "holds_works ?pri [?b] (Suc n) u"
    using push_onto [OF assms(1,10), of ctx 0 ?b] by auto
  have res: "res = Inr (job_id_at ctr 1)" "w1 = w\<lparr>pg := u\<rparr>"
    using assms(13,3,4,6) q(1) by (auto simp: Enqueue_platlib_def nextWorkID_def Let_def job_id_at_def)
  have "holds_works ?pri [?b\<lparr>bw_Attempt := 1\<rparr>] (Suc n) (pg w1)" using q(2) res(2) by simp
  moreover have "in_int32 (MaxAttempts (cfg h))" using assms(7,12) by (auto simp: in_int32_def)
  moreover have job: "job_of d now (?b\<lparr>bw_Attempt := j\<rparr>) tenant = attempt_job ctr tenant kind p now j" for j
    by (simp add: job_of_def Address_benchWork_def job_id_at_def attempt_job_def)
  ultimately have "\<exists>u. serve_times (Suc n) d ctx now ?pri types (h, w1) =
       (h, \<lparr>pg = u, ran = fold (\<lambda>j s. snd (f ctx (job_of d now (?b\<lparr>bw_Attempt := j\<rparr>) tenant) s)) [1..1 + int n] (ran w1)\<rparr>)
     \<and> queue (pool u) = []"
    using assms by (intro serve_times_work [OF assms(1)]) (auto simp: add.commute simp del: upto.simps)
  then show ?thesis
    unfolding res job by (simp add: add.commute del: upto.simps)
qed

text \<open>End to end, on the adapter and its store: a job that is enqueued into an empty queue, and whose worker fails
  \<open>k - 1\<close> times in a retryable way, is delivered exactly \<open>k\<close> times, with attempts \<open>1\<close> to \<open>k\<close> and otherwise the same id,
  tenant, kind and payload; then (when attempt \<open>k\<close> succeeds, fails permanently, or is the last one allowed) the
  queue is empty. So \<^verbatim>\<open>MaxAttempts\<close> bounds the deliveries and no delivery is lost, whether a retry is pushed at once or
  waits for the timer of its back-off.\<close>

theorem retries_until_done:
  assumes "pushes_to_store d" and "uuid_Parse d (uuid_String d tenant) = Inr tenant"
    and "started h" and "map_of (workers h) kind = Some (scripted_worker out)"
    and "retries h = []" and "\<not> UseAddressedPush (opts h)"
    and "MaxAttempts (cfg h) < 2 ^ 31" and "wf_payload p" and "kindCode kind \<in> set types"
    and "holds_works (DefaultPriority (opts h)) [] (Suc n) (pg w)"
    and "\<forall>j. 1 \<le> j \<and> j < int (Suc n) \<longrightarrow> retryable (out j)"
    and "int (Suc n) = MaxAttempts (cfg h) \<or> int (Suc n) < MaxAttempts (cfg h) \<and> \<not> retryable (out (int (Suc n)))"
    and "Enqueue_platlib d h ctx tenant kind p (ctr, w) = (res, ctr', w1)"
  shows "res = Inr (job_id_at ctr 1) \<and>
    (\<exists>u. serve_times (Suc n) d ctx now (DefaultPriority (opts h)) types (h, w1) =
       (h, \<lparr>pg = u, ran = ran w @ map (\<lambda>j. \<lparr>job_ID = job_id_at ctr 1, job_TenantID = tenant, job_Kind = kind,
          job_Payload = p, job_Attempt = j, EnqueuedAt = now\<rparr>) [1..int (Suc n)]\<rparr>)
     \<and> queue (pool u) = [])"
proof -
  have "fold (\<lambda>j s. s @ [attempt_job ctr tenant kind p now j]) js xs = xs @ map (attempt_job ctr tenant kind p now) js" for js xs
    by (induction js arbitrary: xs) simp_all
  then show ?thesis
    using enqueue_then_serve [OF assms(1-3) assms(4) [unfolded scripted_worker_def] assms(5-13), of now]
    unfolding attempt_job_def by (simp del: upto.simps)
qed

lemma store_deps_push: "pushes_to_store store_deps"
  unfolding pushes_to_store_def store_deps_def by auto

theorem retries_until_done_witness:
  "\<exists>w1 u. snd (snd (Enqueue_platlib store_deps retry_harness Background 9 ''k'' zero_payload (0, \<lparr>pg = empty_world, ran = []\<rparr>))) = w1
     \<and> map job_Attempt (ran (snd (serve_times 3 store_deps Background 0 10 [kindCode ''k''] (retry_harness, w1)))) = [1, 2, 3]
     \<and> pg (snd (serve_times 3 store_deps Background 0 10 [kindCode ''k''] (retry_harness, w1))) = u \<and> queue (pool u) = []"
proof -
  obtain res ctr' w1 where e: "Enqueue_platlib store_deps retry_harness Background 9 ''k'' zero_payload (0, \<lparr>pg = empty_world, ran = []\<rparr>) = (res, ctr', w1)"
    by (metis prod_cases3)
  have h: "started retry_harness" "\<not> UseAddressedPush (opts retry_harness)" "retries retry_harness = []"
    "MaxAttempts (cfg retry_harness) = 3" "DefaultPriority (opts retry_harness) = 10"
    "map_of (workers retry_harness) ''k'' = Some (scripted_worker (\<lambda>a. if a < 3 then Some (SimulatedError ErrorRateLimit ''slow down'') else None))"
    by (simp_all add: retry_harness_def)
  have w: "holds_works 10 [] (Suc 2) (pg \<lparr>pg = empty_world, ran = []\<rparr>)"
    using store_inv_empty [of "[]"] by (simp add: holds_works_def empty_world_def empty_tables_def)
  have r: "\<forall>j. 1 \<le> j \<and> j < int (Suc 2) \<longrightarrow> retryable (if j < 3 then Some (SimulatedError ErrorRateLimit ''slow down'') else None)"
    by (simp add: retryable_def IsSimulatedError_def ErrorRateLimit_def ErrorPermanent_def)
  have p: "uuid_Parse store_deps (uuid_String store_deps 9) = Inr 9" "wf_payload zero_payload"
    by (simp_all add: store_deps_def wf_payload_def zero_payload_def in_int32_def in_int64_def)
  obtain u where "serve_times (Suc 2) store_deps Background 0 10 [kindCode ''k''] (retry_harness, w1) =
       (retry_harness, \<lparr>pg = u, ran = [] @ map (\<lambda>j. \<lparr>job_ID = job_id_at 0 1, job_TenantID = 9, job_Kind = ''k'',
          job_Payload = zero_payload, job_Attempt = j, EnqueuedAt = 0\<rparr>) [1..int (Suc 2)]\<rparr>)" "queue (pool u) = []"
    using retries_until_done [OF store_deps_push p(1) h(1,6,3,2) _ p(2), of "[kindCode ''k'']" 2 "\<lparr>pg = empty_world, ran = []\<rparr>"
        Background 0 res ctr' w1 0] w r e unfolding h by auto
  moreover have "[1..3::int] = [1, 2, 3]" by (simp add: upto_rec1)
  ultimately show ?thesis using e by (simp add: numeral_3_eq_3 [symmetric])
qed

end
