(* ===== verification/Platlib_Drain.thy ===== *)
theory Platlib_Drain
  imports Platlib_Retry
begin

text \<open>
  Many jobs on the adapter and its store: whatever the workers answer, every job that \<open>EnqueueMany\<close>
  accepted is delivered for exactly its attempts, in some interleaving with the others, and after a
  bounded number of deliveries the queue is empty.
\<close>

section \<open>The attempts of a job\<close>

text \<open>
  The specification: the jobs a worker is given for one enqueued job, when its outcomes are \<open>out\<close>. The attempt
  number moves towards \<open>mx\<close>, so the list is finite.
\<close>

function job_attempts :: "int \<Rightarrow> (Job \<Rightarrow> goerr option) \<Rightarrow> Job \<Rightarrow> Job list" where
  "job_attempts mx out j = j # (if retryable (out j) \<and> job_Attempt j < mx
     then job_attempts mx out (j\<lparr>job_Attempt := job_Attempt j + 1\<rparr>) else [])"
  by pat_completeness auto
termination by (relation "measure (\<lambda>(mx, out, j). nat (mx - job_Attempt j))") auto

declare job_attempts.simps [simp del]

text \<open>A worker with these outcomes, which keeps the jobs it was given.\<close>

definition recording_worker :: "(Job \<Rightarrow> goerr option) \<Rightarrow> Job list bench_world WorkerFunc" where
  "recording_worker out = lift_worker (\<lambda>ctx job js. (out job, js @ [job]))"

text \<open>The works of the requests, after the counter was \<open>ctr\<close>, and the first job made from a request.\<close>

fun works_of :: "'w deps \<Rightarrow> uint64 \<Rightarrow> EnqueueRequest list \<Rightarrow> benchWork list" where
  "works_of d ctr [] = []"
| "works_of d ctr (r # rs) =
     \<lparr>WorkID = ctr + 1, TenantIDStr = uuid_String d (req_TenantID r), KindStr = req_Kind r, bw_Attempt = 1,
       bw_Payload = req_Payload r\<rparr> # works_of d (ctr + 1) rs"

definition first_job :: "int \<Rightarrow> JobID \<Rightarrow> EnqueueRequest \<Rightarrow> Job" where
  "first_job now i r = \<lparr>job_ID = i, job_TenantID = req_TenantID r, job_Kind = req_Kind r,
     job_Payload = req_Payload r, job_Attempt = 1, EnqueuedAt = now\<rparr>"

text \<open>A harness and two requests for the witness: the first job is turned away twice.\<close>

definition drain_outcome :: "Job \<Rightarrow> goerr option" where
  "drain_outcome j = (if job_ID j = ''bench:1'' \<and> job_Attempt j < 3 then Some (SimulatedError ErrorRateLimit ''slow down'') else None)"

definition drain_harness :: "Job list bench_world Harness" where
  "drain_harness = retry_harness\<lparr>workers := [(''k'', recording_worker drain_outcome)]\<rparr>"

definition drain_requests :: "EnqueueRequest list" where
  "drain_requests = map (\<lambda>t. \<lparr>req_TenantID = t, req_Kind = ''k'', req_Payload = zero_payload\<rparr>) [9, 4]"

section \<open>Facts\<close>

lemma job_attempts_length:
  "length (job_attempts mx out j) \<le> Suc (nat (mx - job_Attempt j))"
proof (induction mx out j rule: job_attempts.induct)
  case (1 mx out j)
  show ?case
  proof (cases "retryable (out j) \<and> job_Attempt j < mx")
    case True
    with 1 have "length (job_attempts mx out (j\<lparr>job_Attempt := job_Attempt j + 1\<rparr>)) \<le> nat (mx - job_Attempt j)" by fastforce
    then show ?thesis using True by (subst job_attempts.simps) simp
  qed (subst job_attempts.simps, auto)
qed

lemma job_attempts_nonempty [simp]: "job_attempts mx out j \<noteq> []"
  by (subst job_attempts.simps) simp

lemma holds_works_mono: "holds_works pri bs n w \<Longrightarrow> m \<le> n \<Longrightarrow> holds_works pri bs m w"
  by (auto simp: holds_works_def)

lemma servable_next:
  "servable d h types f tid b \<Longrightarrow> in_int32 mx \<Longrightarrow> bw_Attempt b < mx \<Longrightarrow> servable d h types f tid (b\<lparr>bw_Attempt := bw_Attempt b + 1\<rparr>)"
  by (auto simp: servable_def wf_work_def in_int32_def Type_benchWork_def)

lemma job_of_next: "job_of d now (b\<lparr>bw_Attempt := a\<rparr>) t = (job_of d now b t)\<lparr>job_Attempt := a\<rparr>"
  by (simp add: job_of_def Address_benchWork_def)

lemma deliveries_end:
  fixes tid :: "string \<Rightarrow> UUID" and now :: int and out :: "Job \<Rightarrow> goerr option" and d :: "Job list bench_world deps" and h :: "Job list bench_world Harness"
  assumes d: "pushes_to_store d" and bo: "retries h = []" and mx: "in_int32 (MaxAttempts (cfg h))"
  defines "job \<equiv> \<lambda>b. job_of d now b (tid (TenantIDStr b))"
    and "att \<equiv> \<lambda>b. job_attempts (MaxAttempts (cfg h)) out (job_of d now b (tid (TenantIDStr b)))"
  assumes "\<forall>b \<in> set bs. servable d h types (\<lambda>ctx job js. (out job, js @ [job])) tid b"
    and "holds_works (DefaultPriority (opts h)) bs n (pg w)" and "n = (\<Sum>b \<leftarrow> bs. length (att b))"
  shows "\<exists>u ds. serve_times n d ctx now (DefaultPriority (opts h)) types (h, w) = (h, \<lparr>pg = u, ran = ran w @ ds\<rparr>)
     \<and> queue (pool u) = [] \<and> mset ds = mset (concat (map att bs))"
  using assms(6-8)
proof (induction n arbitrary: bs w)
  case 0
  then have "bs = []" by (cases bs) (auto simp: att_def)
  with 0 show ?case
    by (intro exI [of _ "pg w"] exI [of _ "[]"]) (simp add: holds_works_def)
next
  case (Suc n)
  let ?again = "\<lambda>b. retryable (out (job b)) \<and> bw_Attempt b < MaxAttempts (cfg h)"
  have ne: "bs \<noteq> []" using Suc.prems(3) by auto
  obtain bs1 b bs2 u where bs: "bs = bs1 @ b # bs2"
    and dl: "deliver d ctx now (DefaultPriority (opts h)) types (h, w) = (h, \<lparr>pg = u, ran = ran w @ [job b]\<rparr>)"
    and hu: "holds_works (DefaultPriority (opts h)) (bs1 @ bs2 @ (if ?again b then [b\<lparr>bw_Attempt := bw_Attempt b + 1\<rparr>] else [])) n u"
    by (rule deliver_work [OF d Suc.prems(1) ne _ bo mx Suc.prems(2), where ctx = ctx and now = now and o' = "\<lambda>b. out (job b)"])
      (simp_all add: job_def)
  let ?rest = "if ?again b then [b\<lparr>bw_Attempt := bw_Attempt b + 1\<rparr>] else []"
  have att: "att b = job b # concat (map att ?rest)"
    unfolding att_def job_def by (subst job_attempts.simps) (simp add: job_of_next, simp add: job_of_def)
  have sv: "\<forall>b \<in> set (bs1 @ bs2 @ ?rest). servable d h types (\<lambda>ctx job js. (out job, js @ [job])) tid b"
    using Suc.prems(1) servable_next [OF _ mx] by (auto simp: bs)
  have n: "n = (\<Sum>b \<leftarrow> bs1 @ bs2 @ ?rest. length (att b))"
    using Suc.prems(3) att by (simp add: bs split: if_splits)
  obtain v ds where v: "serve_times n d ctx now (DefaultPriority (opts h)) types (h, \<lparr>pg = u, ran = ran w @ [job b]\<rparr>) =
       (h, \<lparr>pg = v, ran = (ran w @ [job b]) @ ds\<rparr>)" "queue (pool v) = []" "mset ds = mset (concat (map att (bs1 @ bs2 @ ?rest)))"
    using Suc.IH [OF sv, of "\<lparr>pg = u, ran = ran w @ [job b]\<rparr>"] hu n by auto
  have "mset (job b # ds) = mset (concat (map att bs))"
    using v(3) att by (simp add: bs split: if_splits)
  then show ?case
    using v(1,2) dl by (intro exI [of _ v] exI [of _ "job b # ds"]) simp
qed

lemma EnqueueMany_waits:
  assumes "pushes_to_store d" and "started h" and "\<not> UseAddressedPush (opts h)"
    and "\<forall>r \<in> set js. map_of (workers h) (req_Kind r) \<noteq> None"
    and "holds_works (DefaultPriority (opts h)) bs n (pg w)"
  shows "\<exists>c u. EnqueueMany_loop d h ctx js out (ctr, w) = ((out @ map Address_benchWork (works_of d ctr js), None), c, w\<lparr>pg := u\<rparr>)
     \<and> holds_works (DefaultPriority (opts h)) (bs @ works_of d ctr js) n u"
  using assms(4,5)
proof (induction js arbitrary: bs out ctr w)
  case Nil
  then show ?case by (intro exI [of _ ctr] exI [of _ "pg w"]) simp
next
  case (Cons r js)
  let ?b = "\<lparr>WorkID = ctr + 1, TenantIDStr = uuid_String d (req_TenantID r), KindStr = req_Kind r, bw_Attempt = 1,
       bw_Payload = req_Payload r\<rparr>"
  obtain u where u: "q_Push d ctx (DefaultPriority (opts h)) 0 ?b w = (None, w\<lparr>pg := u\<rparr>)"
    "holds_works (DefaultPriority (opts h)) (bs @ [?b]) n u"
    by (rule push_onto [OF assms(1) Cons.prems(2), of ctx 0 ?b])
  have e: "Enqueue_platlib d h ctx (req_TenantID r) (req_Kind r) (req_Payload r) (ctr, w) = (Inr (Address_benchWork ?b), ctr + 1, w\<lparr>pg := u\<rparr>)"
    using assms(2,3) Cons.prems(1) u(1) by (simp add: Enqueue_platlib_def nextWorkID_def Let_def Address_benchWork_def)
  from Cons.IH [of "bs @ [?b]" "w\<lparr>pg := u\<rparr>" "out @ [Address_benchWork ?b]" "ctr + 1"] Cons.prems(1) u(2)
  show ?case by (simp add: e)
qed

lemma works_first_jobs:
  "\<forall>r \<in> set js. tid (uuid_String d (req_TenantID r)) = req_TenantID r \<Longrightarrow>
   map (\<lambda>b. job_of d now b (tid (TenantIDStr b))) (works_of d ctr js) = map2 (first_job now) (map Address_benchWork (works_of d ctr js)) js"
  by (induction js arbitrary: ctr) (simp_all add: job_of_def first_job_def)

lemma works_servable:
  assumes "\<forall>r \<in> set js. uuid_Parse d (uuid_String d (req_TenantID r)) = Inr (tid (uuid_String d (req_TenantID r)))
     \<and> wf_payload (req_Payload r) \<and> kindCode (req_Kind r) \<in> set types \<and> map_of (workers h) (req_Kind r) = Some (lift_worker f)"
  shows "\<forall>b \<in> set (works_of d ctr js). servable d h types f tid b"
  using assms
  by (induction js arbitrary: ctr) (auto simp: servable_def wf_work_def in_int32_def Type_benchWork_def)

lemma works_of_attempts: "b \<in> set (works_of d ctr js) \<Longrightarrow> bw_Attempt b = 1"
  by (induction js arbitrary: ctr) auto

lemma works_of_length [simp]: "length (works_of d ctr js) = length js"
  by (induction js arbitrary: ctr) auto

text \<open>C3: Every job is done: the jobs that \<open>EnqueueMany\<close> puts into an empty queue, of any tenants and registered kinds, with
  workers that succeed or fail in any way, get pairwise different ids, and after at most \<open>MaxAttempts\<close> deliveries per job the
  queue is empty; the workers were given, in some order, each job for exactly its attempts: \<open>1\<close>, \<open>2\<close> and so on up to
  the first that succeeds, fails permanently or is the last allowed, with its own id, tenant, kind and payload.\<close>

theorem every_job_is_done:
  assumes "pushes_to_store d" and "started h" and "retries h = []" and "\<not> UseAddressedPush (opts h)"
    and "1 \<le> MaxAttempts (cfg h)" and "MaxAttempts (cfg h) < 2 ^ 31"
    and "\<forall>r \<in> set js. uuid_Parse d (uuid_String d (req_TenantID r)) = Inr (req_TenantID r) \<and> wf_payload (req_Payload r)
       \<and> kindCode (req_Kind r) \<in> set types \<and> map_of (workers h) (req_Kind r) = Some (recording_worker out)"
    and "holds_works (DefaultPriority (opts h)) [] (length js * nat (MaxAttempts (cfg h))) (pg w)"
    and "EnqueueMany_platlib d h ctx js (ctr, w) = ((ids, err), ctr', w1)"
  shows "err = None \<and> ids = map (job_id_at ctr) [1..<Suc (length js)] \<and> distinct ids
    \<and> (\<exists>n u ds. n \<le> length js * nat (MaxAttempts (cfg h))
        \<and> serve_times n d ctx now (DefaultPriority (opts h)) types (h, w1) = (h, \<lparr>pg = u, ran = ran w @ ds\<rparr>)
        \<and> queue (pool u) = []
        \<and> mset ds = mset (concat (map (job_attempts (MaxAttempts (cfg h)) out) (map2 (first_job now) ids js))))"
proof -
  let ?mx = "MaxAttempts (cfg h)" and ?pri = "DefaultPriority (opts h)" and ?bs = "works_of d ctr js"
  define tid where "tid s = (case uuid_Parse d s of Inr t \<Rightarrow> t | Inl e \<Rightarrow> 0)" for s
  have tid: "\<forall>r \<in> set js. tid (uuid_String d (req_TenantID r)) = req_TenantID r"
    using assms(7) by (simp add: tid_def)
  let ?att = "\<lambda>b. job_attempts ?mx out (job_of d now b (tid (TenantIDStr b)))"
  have known: "\<forall>r \<in> set js. map_of (workers h) (req_Kind r) \<noteq> None" using assms(7) by simp
  have seq: "0 \<le> permits_id_seq (pg w)" "permits_id_seq (pg w) + int (length js * nat ?mx) < 2 ^ 63"
    using assms(8) by (auto simp: holds_works_def store_inv_def wf_tables_def)
  obtain c u where e: "EnqueueMany_loop d h ctx js [] (ctr, w) = ((map Address_benchWork ?bs, None), c, w\<lparr>pg := u\<rparr>)"
    and hu: "holds_works ?pri ?bs (length js * nat ?mx) u"
    using EnqueueMany_waits [OF assms(1,2,4) known assms(8), of ctx "[]" ctr] by auto
  have ids: "ids = map Address_benchWork ?bs" "err = None" "w1 = w\<lparr>pg := u\<rparr>"
    using assms(9) e by (simp_all add: EnqueueMany_platlib_def)
  have "length js \<le> length js * nat ?mx" using assms(5) by (simp add: Suc_le_eq)
  moreover have "int (length js * nat ?mx) < 2 ^ 63" using seq by linarith
  ultimately have "int (length js) < 2 ^ 63" by linarith
  then have "length js < 2 ^ 64 - 1" by simp
  from EnqueueMany_fresh_ids [OF assms(9) this] ids
  have fresh: "ids = map (job_id_at ctr) [1..<Suc (length js)]" "distinct ids" by (auto simp del: upt_Suc)
  define n where "n = (\<Sum>b \<leftarrow> ?bs. length (?att b))"
  have "length (?att b) \<le> nat ?mx" if "b \<in> set ?bs" for b
    using job_attempts_length [of ?mx out "job_of d now b (tid (TenantIDStr b))"] works_of_attempts [OF that] assms(5)
    by (simp add: job_of_def)
  then have "n \<le> (\<Sum>b \<leftarrow> ?bs. nat ?mx)" unfolding n_def by (intro sum_list_mono)
  then have n: "n \<le> length js * nat ?mx" by (simp add: sum_list_triv)
  have mx: "in_int32 ?mx" using assms(5,6) by (simp add: in_int32_def)
  have "\<forall>b \<in> set ?bs. servable d h types (\<lambda>ctx job js. (out job, js @ [job])) tid b"
    using assms(7) tid by (intro works_servable) (simp add: recording_worker_def)
  from deliveries_end [OF assms(1,3) mx this, where w = "w\<lparr>pg := u\<rparr>" and n = n and now = now and ctx = ctx] holds_works_mono [OF hu n]
  obtain v ds where s: "serve_times n d ctx now ?pri types (h, w1) = (h, \<lparr>pg = v, ran = ran w @ ds\<rparr>)" "queue (pool v) = []"
    "mset ds = mset (concat (map ?att ?bs))"
    by (auto simp: ids n_def)
  have att: "map ?att ?bs = map (job_attempts ?mx out) (map2 (first_job now) ids js)"
    unfolding ids(1) works_first_jobs [OF tid, of now ctr, symmetric] by simp
  show ?thesis using n fresh ids(2) s(1,2) s(3) [unfolded att] by blast
qed

theorem every_job_is_done_witness:
  "\<exists>n u ds w1. n \<le> 6 \<and> snd (snd (EnqueueMany_platlib store_deps drain_harness Background drain_requests (0, \<lparr>pg = empty_world, ran = []\<rparr>))) = w1
     \<and> serve_times n store_deps Background 0 10 [kindCode ''k''] (drain_harness, w1) = (drain_harness, \<lparr>pg = u, ran = ds\<rparr>) \<and> queue (pool u) = []
     \<and> image_mset (\<lambda>j. (job_ID j, job_Attempt j)) (mset ds) = {#(''bench:1'', 1), (''bench:1'', 2), (''bench:1'', 3), (''bench:2'', 1)#}"
proof -
  obtain ids err ctr' w1 where e: "EnqueueMany_platlib store_deps drain_harness Background drain_requests (0, \<lparr>pg = empty_world, ran = []\<rparr>) = ((ids, err), ctr', w1)"
    by (metis prod_cases3 prod.exhaust)
  have h: "started drain_harness" "retries drain_harness = []" "\<not> UseAddressedPush (opts drain_harness)" "MaxAttempts (cfg drain_harness) = 3"
    "DefaultPriority (opts drain_harness) = 10" "map_of (workers drain_harness) ''k'' = Some (recording_worker drain_outcome)"
    by (simp_all add: drain_harness_def retry_harness_def)
  have w: "holds_works (DefaultPriority (opts drain_harness)) [] (length drain_requests * nat (MaxAttempts (cfg drain_harness))) (pg \<lparr>pg = empty_world, ran = []\<rparr>)"
    using store_inv_empty [of "[]"] by (simp add: h(4,5) drain_requests_def holds_works_def empty_world_def empty_tables_def)
  have u: "uuid_Parse store_deps (uuid_String store_deps t) = Inr t" for t by (simp add: store_deps_def)
  have p: "wf_payload zero_payload" by (simp add: wf_payload_def zero_payload_def in_int32_def in_int64_def)
  have r: "\<forall>r \<in> set drain_requests. uuid_Parse store_deps (uuid_String store_deps (req_TenantID r)) = Inr (req_TenantID r) \<and> wf_payload (req_Payload r)
       \<and> kindCode (req_Kind r) \<in> set [kindCode ''k''] \<and> map_of (workers drain_harness) (req_Kind r) = Some (recording_worker drain_outcome)"
    by (auto simp: drain_requests_def h(6) p u)
  have ids: "map (job_id_at 0) [1..<Suc (length drain_requests)] = [''bench:1'', ''bench:2'']"
    by code_simp
  obtain n v ds where s: "n \<le> 6" "serve_times n store_deps Background 0 10 [kindCode ''k''] (drain_harness, w1) = (drain_harness, \<lparr>pg = v, ran = ds\<rparr>)"
    "queue (pool v) = []" "mset ds = mset (concat (map (job_attempts 3 drain_outcome) (map2 (first_job 0) [''bench:1'', ''bench:2''] drain_requests)))"
    using every_job_is_done [OF store_deps_push h(1,2,3) _ _ r w e, of 0] unfolding h(4,5) ids by (auto simp: drain_requests_def)
  have "image_mset (\<lambda>j. (job_ID j, job_Attempt j)) (mset ds) = {#(''bench:1'', 1), (''bench:1'', 2), (''bench:1'', 3), (''bench:2'', 1)#}"
    unfolding s(4) by (simp add: drain_requests_def first_job_def job_attempts.simps drain_outcome_def retryable_def IsSimulatedError_def ErrorRateLimit_def ErrorPermanent_def)
  with s e show ?thesis by auto
qed

end
