(* ===== verification/Go_Float.thy ===== *)
theory Go_Float
  imports Complex_Main "HOL-Library.Log_Nat"
begin

text \<open>
  Go's \<^verbatim>\<open>float64\<close>: the values are rationals, and every operation is the exact one followed by \<open>f64\<close>, the IEEE 754
  binary64 rounding (53 significant bits, ties to even, gradual underflow). Not-a-number and the
  infinities are left out: the program divides only by counts and durations it has checked to be
  non-zero, and nothing it computes comes near \<open>2 ^ 1024\<close>.
\<close>

section \<open>Rounding\<close>

definition round_even :: "rat \<Rightarrow> int" where
  "round_even x =
     (let f = \<lfloor>x\<rfloor>; d = x - of_int f in
      if d < 1 / 2 then f else if d > 1 / 2 then f + 1 else if even f then f else f + 1)"

text \<open>The binary exponent of a positive rational: \<open>2 powi e \<le> x < 2 powi (e + 1)\<close>.\<close>

definition exponent2 :: "rat \<Rightarrow> int" where
  "exponent2 x =
     (case quotient_of x of (a, b) \<Rightarrow>
        let k = int (floorlog 2 (nat a)) - int (floorlog 2 (nat b)) in
        if 2 powi k \<le> x then k else k - 1)"

definition ulp_exp :: "rat \<Rightarrow> int" where
  "ulp_exp x = max (exponent2 x) (- 1022) - 52"

definition f64_pos :: "rat \<Rightarrow> rat" where
  "f64_pos x = of_int (round_even (x / 2 powi ulp_exp x)) * 2 powi ulp_exp x"

definition f64 :: "rat \<Rightarrow> rat" where
  "f64 x = (if x = 0 then 0 else if x < 0 then - f64_pos (- x) else f64_pos x)"

section \<open>Facts\<close>

lemma round_even_bounds:
  "of_int (round_even x) - x \<le> 1 / 2" "x - of_int (round_even x) \<le> 1 / 2"
proof -
  have "of_int \<lfloor>x\<rfloor> \<le> x" "x < of_int \<lfloor>x\<rfloor> + 1" using floor_correct [of x] by auto
  then show "of_int (round_even x) - x \<le> 1 / 2" "x - of_int (round_even x) \<le> 1 / 2"
    unfolding round_even_def Let_def by (auto simp del: of_int_floor_le)
qed

lemma round_even_int [simp]: "round_even (of_int i) = i"
  by (simp add: round_even_def)

lemma round_even_mono:
  assumes "x \<le> y"
  shows "round_even x \<le> round_even y"
proof (cases "\<lfloor>x\<rfloor> = \<lfloor>y\<rfloor>")
  case True
  then show ?thesis using assms by (auto simp: round_even_def Let_def)
next
  case False
  have "\<lfloor>x\<rfloor> \<le> \<lfloor>y\<rfloor>" using assms by (rule floor_mono)
  with False have "\<lfloor>x\<rfloor> + 1 \<le> \<lfloor>y\<rfloor>" by simp
  moreover have "round_even x \<le> \<lfloor>x\<rfloor> + 1" "\<lfloor>y\<rfloor> \<le> round_even y" by (auto simp: round_even_def Let_def)
  ultimately show ?thesis by linarith
qed

lemma round_even_le_int: "x \<le> of_int i \<Longrightarrow> round_even x \<le> i"
  using round_even_mono [of x "of_int i"] by simp

lemma round_even_ge_int: "of_int i \<le> x \<Longrightarrow> i \<le> round_even x"
  using round_even_mono [of "of_int i" x] by simp

lemma powi2_add: "2 powi (a + b) = 2 powi a * (2 powi b :: rat)"
  by (simp add: power_int_add)

lemma powi2_mono: "a \<le> b \<Longrightarrow> 2 powi a \<le> (2 powi b :: rat)"
  by (simp add: power_int_increasing)

lemma powi2_less_iff: "2 powi a < (2 powi b :: rat) \<longleftrightarrow> a < b"
  using power_int_strict_increasing [of a b "2::rat"] powi2_mono [of b a] by force

lemma exponent2_bounds:
  assumes "0 < x"
  shows "2 powi exponent2 x \<le> x" and "x < 2 powi (exponent2 x + 1)"
proof -
  obtain a b where q: "quotient_of x = (a, b)" by fastforce
  then have b: "0 < b" and x: "x = of_int a / of_int b"
    using quotient_of_denom_pos [OF q] quotient_of_div [OF q] by auto
  then have a: "0 < a" using assms by (simp add: zero_less_divide_iff)
  define la lb where "la = floorlog 2 (nat a)" and "lb = floorlog 2 (nat b)"
  have la: "0 < la" and lb: "0 < lb"
    using a b by (auto simp: la_def lb_def floorlog_eq_zero_iff intro: gr0I)
  have A: "2 ^ (la - 1) \<le> nat a" "nat a < 2 ^ la" using floorlog_bounds [of "nat a" 2] a by (auto simp: la_def)
  have B: "2 ^ (lb - 1) \<le> nat b" "nat b < 2 ^ lb" using floorlog_bounds [of "nat b" 2] b by (auto simp: lb_def)
  have a1: "2 powi (int la - 1) \<le> (of_int a :: rat)" "of_int a < (2 powi int la :: rat)"
  proof -
    have "int (2 ^ (la - 1)) \<le> a" "a < int (2 ^ la)" using A a by linarith+
    then have "of_int (int (2 ^ (la - 1))) \<le> (of_int a :: rat)" "(of_int a :: rat) < of_int (int (2 ^ la))"
      by (simp_all only: of_int_le_iff of_int_less_iff)
    then show "2 powi (int la - 1) \<le> (of_int a :: rat)" "of_int a < (2 powi int la :: rat)"
      using la by (simp_all add: power_int_def nat_diff_distrib)
  qed
  have b1: "2 powi (int lb - 1) \<le> (of_int b :: rat)" "of_int b < (2 powi int lb :: rat)"
  proof -
    have "int (2 ^ (lb - 1)) \<le> b" "b < int (2 ^ lb)" using B b by linarith+
    then have "of_int (int (2 ^ (lb - 1))) \<le> (of_int b :: rat)" "(of_int b :: rat) < of_int (int (2 ^ lb))"
      by (simp_all only: of_int_le_iff of_int_less_iff)
    then show "2 powi (int lb - 1) \<le> (of_int b :: rat)" "of_int b < (2 powi int lb :: rat)"
      using lb by (simp_all add: power_int_def nat_diff_distrib)
  qed
  let ?k = "int la - int lb"
  have lo: "2 powi (?k - 1) \<le> x"
  proof -
    have "2 powi (?k - 1) * of_int b \<le> (2 powi (?k - 1) * 2 powi int lb :: rat)" using b1(2) by (intro mult_left_mono) auto
    also have "\<dots> = 2 powi (int la - 1)" using powi2_add [of "?k - 1" "int lb"] by simp
    also have "\<dots> \<le> of_int a" by (rule a1)
    finally show ?thesis using b by (simp add: x pos_le_divide_eq)
  qed
  have hi: "x < 2 powi (?k + 1)"
  proof -
    have "of_int a < (2 powi int la :: rat)" by (rule a1)
    also have "\<dots> = 2 powi (?k + 1) * 2 powi (int lb - 1)" using powi2_add [of "?k + 1" "int lb - 1"] by simp
    also have "\<dots> \<le> 2 powi (?k + 1) * of_int b" using b1(1) by (intro mult_left_mono) auto
    finally show ?thesis using b by (simp add: x pos_divide_less_eq)
  qed
  have "exponent2 x = (if 2 powi ?k \<le> x then ?k else ?k - 1)"
    by (simp add: exponent2_def q la_def lb_def Let_def)
  then show "2 powi exponent2 x \<le> x" "x < 2 powi (exponent2 x + 1)"
    using lo hi by auto
qed

lemma exponent2_mono: "0 < x \<Longrightarrow> x \<le> y \<Longrightarrow> exponent2 x \<le> exponent2 y"
proof -
  assume "0 < x" "x \<le> y"
  then have "2 powi exponent2 x < (2 powi (exponent2 y + 1) :: rat)"
    using exponent2_bounds [of x] exponent2_bounds [of y] by linarith
  then show ?thesis by (simp add: powi2_less_iff)
qed

lemma f64_pos_le_pow: "0 < x \<Longrightarrow> - 1022 \<le> exponent2 x \<Longrightarrow> f64_pos x \<le> 2 powi (exponent2 x + 1)"
proof -
  assume x: "0 < x" "- 1022 \<le> exponent2 x"
  let ?q = "ulp_exp x"
  have "exponent2 x + 1 = 53 + ?q" using x(2) by (simp add: ulp_exp_def)
  then have p: "2 powi (exponent2 x + 1) = of_int (2 ^ 53) * (2 powi ?q :: rat)" by (simp add: powi2_add)
  have "x / 2 powi ?q \<le> of_int (2 ^ 53)"
    using exponent2_bounds(2) [OF x(1)] unfolding p by (simp add: pos_divide_le_eq)
  then have "round_even (x / 2 powi ?q) \<le> 2 ^ 53" by (rule round_even_le_int)
  then have "of_int (round_even (x / 2 powi ?q)) \<le> (of_int (2 ^ 53) :: rat)" by (simp only: of_int_le_iff)
  then show ?thesis unfolding f64_pos_def p by (rule mult_right_mono) simp
qed

lemma f64_pos_ge_pow: "0 < x \<Longrightarrow> - 1022 \<le> exponent2 x \<Longrightarrow> 2 powi exponent2 x \<le> f64_pos x"
proof -
  assume x: "0 < x" "- 1022 \<le> exponent2 x"
  let ?q = "ulp_exp x"
  have "exponent2 x = 52 + ?q" using x(2) by (simp add: ulp_exp_def)
  then have p: "2 powi exponent2 x = of_int (2 ^ 52) * (2 powi ?q :: rat)" by (simp add: powi2_add)
  have "of_int (2 ^ 52) \<le> x / 2 powi ?q"
    using exponent2_bounds(1) [OF x(1)] unfolding p by (simp add: pos_le_divide_eq)
  then have "2 ^ 52 \<le> round_even (x / 2 powi ?q)" by (rule round_even_ge_int)
  then have "(of_int (2 ^ 52) :: rat) \<le> of_int (round_even (x / 2 powi ?q))" by (simp only: of_int_le_iff)
  then show ?thesis unfolding f64_pos_def p by (rule mult_right_mono) simp
qed

lemma f64_pos_mono:
  assumes "0 < x" and "x \<le> y"
  shows "f64_pos x \<le> f64_pos y"
proof (cases "ulp_exp x = ulp_exp y")
  case True
  have "round_even (x / 2 powi ulp_exp y) \<le> round_even (y / 2 powi ulp_exp y)"
    using assms(2) by (intro round_even_mono divide_right_mono) simp_all
  then show ?thesis unfolding f64_pos_def True by (intro mult_right_mono) simp_all
next
  case False
  have m: "exponent2 x \<le> exponent2 y" by (rule exponent2_mono [OF assms])
  with False have lt: "exponent2 x < exponent2 y" and y: "- 1022 < exponent2 y" by (auto simp: ulp_exp_def)
  have y0: "0 < y" using assms by linarith
  have gy: "2 powi exponent2 y \<le> f64_pos y" using f64_pos_ge_pow [OF y0] y by simp
  show ?thesis
  proof (cases "- 1022 \<le> exponent2 x")
    case True
    have "f64_pos x \<le> 2 powi (exponent2 x + 1)" by (rule f64_pos_le_pow [OF assms(1) True])
    also have "\<dots> \<le> 2 powi exponent2 y" using lt by (intro powi2_mono) simp
    finally show ?thesis using gy by linarith
  next
    case False
    then have q: "ulp_exp x = - 1074" by (simp add: ulp_exp_def)
    have "x < 2 powi (exponent2 x + 1)" by (rule exponent2_bounds(2) [OF assms(1)])
    also have "\<dots> \<le> (2 powi (- 1022) :: rat)" using False by (intro powi2_mono) simp
    also have "(2 powi (- 1022) :: rat) = of_int (2 ^ 52) * 2 powi (- 1074)" using powi2_add [of 52 "- 1074"] by simp
    finally have "x / 2 powi ulp_exp x \<le> of_int (2 ^ 52)" unfolding q by (simp add: pos_divide_le_eq)
    then have "of_int (round_even (x / 2 powi ulp_exp x)) \<le> (of_int (2 ^ 52) :: rat)"
      using round_even_le_int by (simp only: of_int_le_iff)
    then have "f64_pos x \<le> of_int (2 ^ 52) * 2 powi (- 1074)"
      unfolding f64_pos_def q by (rule mult_right_mono) simp
    also have "\<dots> = (2 powi (- 1022) :: rat)" using powi2_add [of 52 "- 1074"] by simp
    also have "\<dots> \<le> 2 powi exponent2 y" using y by (intro powi2_mono) simp
    finally show ?thesis using gy by linarith
  qed
qed

lemma f64_pos_nonneg: "0 < x \<Longrightarrow> 0 \<le> f64_pos x"
proof -
  assume "0 < x"
  then have "0 \<le> round_even (x / 2 powi ulp_exp x)" by (intro round_even_ge_int) simp
  then show ?thesis by (simp add: f64_pos_def)
qed

lemma f64_0 [simp]: "f64 0 = 0"
  by (simp add: f64_def)

lemma f64_nonneg: "0 \<le> x \<Longrightarrow> 0 \<le> f64 x"
  by (simp add: f64_def f64_pos_nonneg)

lemma f64_neg: "f64 (- x) = - f64 x"
  by (simp add: f64_def)

lemma f64_mono: "x \<le> y \<Longrightarrow> f64 x \<le> f64 y"
proof -
  assume xy: "x \<le> y"
  consider "0 \<le> x" | "x < 0" "0 \<le> y" | "x < 0" "y < 0" by linarith
  then show ?thesis
  proof cases
    case 1
    then show ?thesis using xy f64_pos_mono [of x y] f64_pos_nonneg [of y] by (auto simp: f64_def)
  next
    case 2
    then show ?thesis using f64_nonneg [of y] f64_pos_nonneg [of "- x"] by (auto simp: f64_def)
  next
    case 3
    then show ?thesis using xy f64_pos_mono [of "- y" "- x"] by (auto simp: f64_def)
  qed
qed

text \<open>A number with at most 53 significant bits in the normal range is not changed.\<close>

lemma f64_pos_exact:
  assumes m: "0 < m" "m \<le> 2 ^ 53" and k: "- 1074 \<le> k"
  shows "f64_pos (of_int m * 2 powi k) = of_int m * 2 powi k"
proof -
  let ?x = "of_int m * 2 powi k :: rat" and ?q = "ulp_exp (of_int m * 2 powi k)"
  have x: "0 < ?x" using m by simp
  have "of_int m \<le> (of_int (2 ^ 53) :: rat)" using m(2) by (simp only: of_int_le_iff)
  then have "?x \<le> of_int (2 ^ 53) * 2 powi k" by (rule mult_right_mono) simp
  also have "\<dots> = 2 powi (53 + k)" by (simp add: powi2_add)
  finally have le: "?x \<le> 2 powi (53 + k)" .
  show ?thesis
  proof (cases "?x = 2 powi (53 + k)")
    case True
    have "2 powi exponent2 ?x \<le> ?x" "?x < 2 powi (exponent2 ?x + 1)" by (rule exponent2_bounds [OF x])+
    then have "exponent2 ?x = 53 + k"
      unfolding True using powi2_less_iff [of "53 + k" "exponent2 (2 powi (53 + k)) + 1"] powi2_less_iff [of "53 + k" "exponent2 (2 powi (53 + k))"] by linarith
    then have "?q = k + 1" using k by (simp add: ulp_exp_def)
    then have "?x / 2 powi ?q = of_int (2 ^ 52)" unfolding True using powi2_add [of 52 "k + 1"] by (simp add: add.commute)
    then show ?thesis using f64_pos_def [of ?x] by (metis round_even_int nonzero_eq_divide_eq power_int_not_zero zero_neq_numeral)
  next
    case False
    then have "2 powi exponent2 ?x < (2 powi (53 + k) :: rat)" using le exponent2_bounds(1) [OF x] by linarith
    then have q: "?q \<le> k" using k by (simp add: powi2_less_iff ulp_exp_def)
    have "?x / 2 powi ?q = of_int m * (2 powi (k - ?q))" by (simp add: power_int_diff)
    also have "\<dots> = of_int (m * 2 ^ nat (k - ?q))" using q by (simp add: power_int_def)
    finally have e: "?x / 2 powi ?q = of_int (m * 2 ^ nat (k - ?q))" .
    then show ?thesis using f64_pos_def [of ?x] by (metis round_even_int nonzero_eq_divide_eq power_int_not_zero zero_neq_numeral)
  qed
qed

lemma f64_int: "\<bar>i\<bar> \<le> 2 ^ 53 \<Longrightarrow> f64 (of_int i) = of_int i"
  using f64_pos_exact [of i 0] f64_pos_exact [of "- i" 0] by (auto simp: f64_def)

lemma f64_le_int: "x \<le> of_int i \<Longrightarrow> \<bar>i\<bar> \<le> 2 ^ 53 \<Longrightarrow> f64 x \<le> of_int i"
  using f64_mono [of x "of_int i"] f64_int [of i] by simp

lemma f64_ge_int: "of_int i \<le> x \<Longrightarrow> \<bar>i\<bar> \<le> 2 ^ 53 \<Longrightarrow> of_int i \<le> f64 x"
  using f64_mono [of "of_int i" x] f64_int [of i] by simp

text \<open>The relative error of a rounding in the normal range.\<close>

lemma f64_error:
  assumes "0 < x" and "- 1022 \<le> exponent2 x"
  shows "\<bar>f64 x - x\<bar> \<le> x / 2 ^ 53"
proof -
  let ?q = "ulp_exp x"
  have "\<bar>of_int (round_even (x / 2 powi ?q)) - x / 2 powi ?q\<bar> \<le> 1 / 2"
    using round_even_bounds [of "x / 2 powi ?q"] by linarith
  then have "\<bar>of_int (round_even (x / 2 powi ?q)) - x / 2 powi ?q\<bar> * 2 powi ?q \<le> 1 / 2 * 2 powi ?q"
    by (rule mult_right_mono) simp
  also have "\<bar>of_int (round_even (x / 2 powi ?q)) - x / 2 powi ?q\<bar> * 2 powi ?q = \<bar>f64 x - x\<bar>"
  proof -
    have "\<bar>r - x / p\<bar> * p = \<bar>r * p - x\<bar>" if "0 < p" for r p :: rat
      using that abs_mult [of "r - x / p" p] by (simp add: left_diff_distrib)
    then show ?thesis using assms(1) by (simp add: f64_def f64_pos_def)
  qed
  also have "1 / 2 * 2 powi ?q = 2 powi exponent2 x / (2 ^ 53 :: rat)"
    using assms(2) powi2_add [of "exponent2 x" "- 52"] by (simp add: ulp_exp_def power_int_minus power_int_diff divide_simps)
  also have "\<dots> \<le> x / 2 ^ 53" using exponent2_bounds(1) [OF assms(1)] by (intro divide_right_mono) simp_all
  finally show ?thesis .
qed

lemma exponent2_ge: "0 < x \<Longrightarrow> 2 powi k \<le> x \<Longrightarrow> k \<le> exponent2 x"
proof -
  assume "0 < x" "2 powi k \<le> x"
  then have "2 powi k < (2 powi (exponent2 x + 1) :: rat)" using exponent2_bounds(2) [of x] by linarith
  then show ?thesis by (simp add: powi2_less_iff)
qed

lemma f64_lower: "1 / 256 \<le> x \<Longrightarrow> x - x / 2 ^ 53 \<le> f64 x"
proof -
  assume x: "1 / 256 \<le> x"
  then have p: "0 < x" by linarith
  have "- 8 \<le> exponent2 x" using exponent2_ge [OF p, of "- 8"] x by (simp add: power_int_minus)
  then have "\<bar>f64 x - x\<bar> \<le> x / 2 ^ 53" using f64_error [OF p] by simp
  then show ?thesis by linarith
qed

end
