(* ===== verification/Analyze_Stats.thy ===== *)
theory Analyze_Stats
  imports Go_Base Go_Float
begin

text \<open>
  The statistics of \<^verbatim>\<open>internal/analyze/analyze.go\<close>: \<open>summarize\<close> with its nearest-rank percentiles, and
  the median, minimum and maximum across runs, on \<^verbatim>\<open>float64\<close> samples.
\<close>

record LatencyStats =
  ls_Count :: nat
  ls_Min :: rat
  ls_P50 :: rat
  ls_P95 :: rat
  ls_P99 :: rat
  ls_Max :: rat
  ls_Mean :: rat

definition zero_LatencyStats :: LatencyStats where
  "zero_LatencyStats = \<lparr>ls_Count = 0, ls_Min = 0, ls_P50 = 0, ls_P95 = 0, ls_P99 = 0, ls_Max = 0, ls_Mean = 0\<rparr>"

text \<open>The closure \<open>pct\<close> of \<open>summarize\<close>; \<open>pct_index\<close> is its index before the element is read.\<close>

definition pct_index :: "rat \<Rightarrow> nat \<Rightarrow> int" where
  "pct_index p n =
     (let idx = \<lceil>f64 (p * f64 (of_nat n))\<rceil> - 1;
          idx1 = (if idx < 0 then 0 else idx)
      in if idx1 \<ge> int n then int n - 1 else idx1)"

definition pct :: "rat list \<Rightarrow> rat \<Rightarrow> rat" where
  "pct sorted' p = (if length sorted' = 0 then 0 else sorted' ! nat (pct_index p (length sorted')))"

definition sum_f64 :: "rat list \<Rightarrow> rat" where
  "sum_f64 xs = foldl (\<lambda>s v. f64 (s + v)) 0 xs"

definition summarize :: "rat list \<Rightarrow> LatencyStats" where
  "summarize xs =
     (if length xs = 0 then zero_LatencyStats
      else
        let sorted' = sort xs in
        \<lparr>ls_Count = length xs, ls_Min = sorted' ! 0, ls_P50 = pct sorted' (f64 (1 / 2)),
         ls_P95 = pct sorted' (f64 (95 / 100)), ls_P99 = pct sorted' (f64 (99 / 100)),
         ls_Max = sorted' ! (length sorted' - 1),
         ls_Mean = f64 (sum_f64 xs / f64 (of_nat (length xs)))\<rparr>)"

definition medianF :: "rat list \<Rightarrow> rat" where
  "medianF xs = (if length xs = 0 then 0 else sort xs ! (length xs div 2))"

fun minF_loop :: "rat \<Rightarrow> rat list \<Rightarrow> rat" where
  "minF_loop m [] = m"
| "minF_loop m (x # xs) = minF_loop (if x < m then x else m) xs"

definition minF :: "rat list \<Rightarrow> rat" where
  "minF xs = (case xs of [] \<Rightarrow> 0 | x # rest \<Rightarrow> minF_loop x rest)"

fun maxF_loop :: "rat \<Rightarrow> rat list \<Rightarrow> rat" where
  "maxF_loop m [] = m"
| "maxF_loop m (x # xs) = maxF_loop (if x > m then x else m) xs"

definition maxF :: "rat list \<Rightarrow> rat" where
  "maxF xs = (case xs of [] \<Rightarrow> 0 | x # rest \<Rightarrow> maxF_loop x rest)"

definition float64Ints :: "int list \<Rightarrow> rat list" where
  "float64Ints xs = map (\<lambda>x. f64 (of_int x)) xs"

text \<open>How many samples are at most, and how many below, a value.\<close>

definition count_le :: "rat list \<Rightarrow> rat \<Rightarrow> nat" where
  "count_le xs v = length (filter (\<lambda>x. x \<le> v) xs)"

definition count_lt :: "rat list \<Rightarrow> rat \<Rightarrow> nat" where
  "count_lt xs v = length (filter (\<lambda>x. x < v) xs)"

section \<open>Facts\<close>

lemma pct_index_range: "0 < n \<Longrightarrow> 0 \<le> pct_index p n \<and> pct_index p n < int n"
  by (auto simp: pct_index_def Let_def)

lemma pct_index_mono: "p \<le> q \<Longrightarrow> pct_index p n \<le> pct_index q n"
proof -
  assume "p \<le> q"
  then have "p * f64 (of_nat n) \<le> q * f64 (of_nat n)" by (intro mult_right_mono f64_nonneg) simp_all
  then have "\<lceil>f64 (p * f64 (of_nat n))\<rceil> \<le> \<lceil>f64 (q * f64 (of_nat n))\<rceil>" by (intro ceiling_mono f64_mono)
  moreover have "(let idx1 = (if a - 1 < 0 then 0 else a - 1) in if idx1 \<ge> int n then int n - 1 else idx1)
      \<le> (let idx1 = (if b - 1 < 0 then 0 else b - 1) in if idx1 \<ge> int n then int n - 1 else idx1)" if "a \<le> b" for a b
    using that by (auto simp: Let_def)
  ultimately show ?thesis unfolding pct_index_def by (simp only: Let_def)
qed

lemma pct_mono: "sorted xs \<Longrightarrow> p \<le> q \<Longrightarrow> pct xs p \<le> pct xs q"
proof -
  assume s: "sorted xs" and pq: "p \<le> q"
  show ?thesis
  proof (cases "xs = []")
    case False
    then have "nat (pct_index q (length xs)) < length xs" using pct_index_range [of "length xs" q] by auto
    then show ?thesis
      using s False pct_index_mono [OF pq, of "length xs"] by (auto simp: pct_def intro!: sorted_nth_mono nat_mono)
  qed (simp add: pct_def)
qed

lemma pct_in: "xs \<noteq> [] \<Longrightarrow> pct xs p \<in> set xs"
  using pct_index_range [of "length xs" p] by (auto simp: pct_def intro!: nth_mem)

text \<open>The rank of a percentile of hundredths: rounding does not move it.\<close>

lemma pct_index_rank:
  assumes p: "0 < p" "p \<le> 100" and n: "0 < n" "n \<le> 2 ^ 40"
    and lo: "f64 (of_int p / 100) \<le> of_int p / 100"
    and err: "of_int p / 100 - f64 (of_int p / 100) \<le> 1 / 2 ^ 53"
  shows "pct_index (f64 (of_int p / 100)) n = \<lceil>of_int p * of_nat n / 100 :: rat\<rceil> - 1"
proof -
  let ?q = "f64 (of_int p / 100)"
  define m where "m = \<lceil>of_int p * of_nat n / 100 :: rat\<rceil>"
  have fn: "f64 (of_nat n) = (of_nat n :: rat)" using f64_int [of "int n"] n(2) by simp
  have nn: "(of_nat n :: rat) \<le> 2 ^ 40" using n(2) by (metis of_nat_le_iff of_nat_numeral of_nat_power)
  have pn: "0 < of_int p * of_nat n / (100 :: rat)" using p(1) n(1) by simp
  have m1: "1 \<le> m" using pn by (simp add: m_def less_ceiling_iff [symmetric])
  have "(of_int p :: rat) * of_nat n \<le> 100 * of_nat n" using p(2) by (intro mult_right_mono) simp_all
  then have mn: "m \<le> int n" by (simp add: m_def ceiling_le_iff)
  have up: "?q * of_nat n \<le> of_int m"
  proof -
    have "?q * of_nat n \<le> of_int p / 100 * of_nat n" using lo by (intro mult_right_mono) simp_all
    also have "\<dots> \<le> of_int m" by (simp add: m_def)
    finally show ?thesis .
  qed
  have "int n \<le> 2 ^ 40" using n(2) by simp
  then have "\<bar>m\<bar> \<le> 2 ^ 53" using m1 mn by simp
  with up have "f64 (?q * of_nat n) \<le> of_int m" by (rule f64_le_int)
  then have c1: "\<lceil>f64 (?q * of_nat n)\<rceil> \<le> m" by (simp add: ceiling_le_iff)
  have frac: "of_int p * of_nat n / 100 \<ge> (of_int (m - 1) + 1 / 100 :: rat)"
  proof -
    have "of_int (m - 1) < (of_int p * of_nat n / 100 :: rat)" unfolding m_def by (subst less_ceiling_iff [symmetric]) simp
    then have "of_int (100 * (m - 1)) < (of_int (p * int n) :: rat)" by simp
    then have "100 * (m - 1) + 1 \<le> p * int n" by (simp only: of_int_less_iff)
    then have "of_int (100 * (m - 1) + 1) \<le> (of_int (p * int n) :: rat)" by (simp only: of_int_le_iff)
    then show ?thesis by simp
  qed
  have "(of_int p / 100 - ?q) * of_nat n \<le> 1 / 2 ^ 53 * 2 ^ 40" using err lo nn by (intro mult_mono) simp_all
  then have q1: "of_int (m - 1) + 1 / 200 \<le> ?q * of_nat n"
    using frac by (simp add: left_diff_distrib)
  let ?x = "?q * of_nat n"
  have "1 / 256 \<le> ?x" using q1 m1 by (simp add: of_int_diff [symmetric] del: of_int_diff)
  then have "?x - ?x / 2 ^ 53 \<le> f64 ?x" by (rule f64_lower)
  moreover have "?x / 2 ^ 53 \<le> 1 / 2 ^ 13"
  proof -
    have "?x \<le> of_int m" by (rule up)
    also have "\<dots> \<le> of_int (int n)" using mn by (simp only: of_int_le_iff)
    also have "\<dots> \<le> 2 ^ 40" using nn by simp
    finally have "?x / 2 ^ 53 \<le> 2 ^ 40 / 2 ^ 53" by (intro divide_right_mono) simp_all
    then show ?thesis by simp
  qed
  moreover have "(1 :: rat) / 2 ^ 13 < 1 / 200" by simp
  ultimately have "of_int (m - 1) < f64 ?x" using q1 by linarith
  then have "m - 1 < \<lceil>f64 ?x\<rceil>" by (simp only: less_ceiling_iff)
  with c1 have "\<lceil>f64 ?x\<rceil> = m" by simp
  then show ?thesis using m1 mn unfolding m_def [symmetric] by (simp add: pct_index_def Let_def fn)
qed

lemma percent_literals:
  "f64 (of_int 50 / 100) = 1 / 2" "f64 (of_int 95 / 100) \<le> of_int 95 / 100" "of_int 95 / 100 - f64 (of_int 95 / 100) \<le> 1 / 2 ^ 53"
  "f64 (of_int 99 / 100) \<le> of_int 99 / 100" "of_int 99 / 100 - f64 (of_int 99 / 100) \<le> 1 / 2 ^ 53"
  by code_simp+

lemma percentile_ranks:
  assumes "0 < n" and "n \<le> 2 ^ 40"
  shows "pct_index (f64 (1 / 2)) n = \<lceil>50 * of_nat n / 100 :: rat\<rceil> - 1"
    and "pct_index (f64 (95 / 100)) n = \<lceil>95 * of_nat n / 100 :: rat\<rceil> - 1"
    and "pct_index (f64 (99 / 100)) n = \<lceil>99 * of_nat n / 100 :: rat\<rceil> - 1"
  using pct_index_rank [OF _ _ assms, of 50] pct_index_rank [OF _ _ assms, of 95] pct_index_rank [OF _ _ assms, of 99] percent_literals
  by simp_all

text \<open>The elements of a sorted list up to an index.\<close>

lemma sorted_count_le: "sorted xs \<Longrightarrow> i < length xs \<Longrightarrow> Suc i \<le> count_le xs (xs ! i)"
proof -
  assume s: "sorted xs" "i < length xs"
  have "filter (\<lambda>x. x \<le> xs ! i) (take (Suc i) xs) = take (Suc i) xs"
    using s by (auto simp: filter_id_conv in_set_conv_nth intro!: sorted_nth_mono)
  then have "Suc i = length (filter (\<lambda>x. x \<le> xs ! i) (take (Suc i) xs))" using s by simp
  also have "\<dots> \<le> length (filter (\<lambda>x. x \<le> xs ! i) (take (Suc i) xs @ drop (Suc i) xs))"
    unfolding filter_append length_append by simp
  finally show ?thesis by (simp add: count_le_def)
qed

lemma sorted_count_lt: "sorted xs \<Longrightarrow> i < length xs \<Longrightarrow> count_lt xs (xs ! i) \<le> i"
proof -
  assume s: "sorted xs" "i < length xs"
  have none: "filter (\<lambda>x. x < xs ! i) (drop i xs) = []"
    using s by (auto simp: filter_empty_conv in_set_conv_nth not_less intro!: sorted_nth_mono)
  have "count_lt xs (xs ! i) = length (filter (\<lambda>x. x < xs ! i) (take i xs @ drop i xs))"
    by (simp add: count_lt_def)
  also have "\<dots> = length (filter (\<lambda>x. x < xs ! i) (take i xs))"
    unfolding filter_append length_append none by simp
  also have "\<dots> \<le> length (take i xs)" by (rule length_filter_le)
  also have "\<dots> \<le> i" by simp
  finally show ?thesis .
qed

lemma length_filter_mset: "mset xs = mset ys \<Longrightarrow> length (filter P xs) = length (filter P ys)"
  by (metis mset_filter size_mset)

lemma count_sort [simp]: "count_le (sort xs) v = count_le xs v" "count_lt (sort xs) v = count_lt xs v"
  by (simp_all add: count_le_def count_lt_def length_filter_mset [of "sort xs" xs])

text \<open>A percentile of hundredths of the samples: at least \<open>p\<close> percent are at most it, fewer than \<open>p\<close> percent are below it.\<close>

lemma rank_percentile:
  assumes "xs \<noteq> []" and i: "i = \<lceil>of_int p * of_nat (length xs) / 100 :: rat\<rceil> - 1" and p: "0 < p" "p \<le> 100"
  shows "p * int (length xs) \<le> 100 * int (count_le xs (sort xs ! nat i))"
    and "100 * int (count_lt xs (sort xs ! nat i)) < p * int (length xs)"
proof -
  define q where "q = (of_int p * of_nat (length xs) / 100 :: rat)"
  have q0: "0 < q" using assms by (simp add: q_def)
  have "(of_int p :: rat) * of_nat (length xs) \<le> 100 * of_nat (length xs)" using p(2) by (intro mult_right_mono) simp_all
  then have q1: "q \<le> of_int (int (length xs))" by (simp add: q_def)
  have c: "1 \<le> \<lceil>q\<rceil>" using q0 by linarith
  have i': "i = \<lceil>q\<rceil> - 1" using i by (simp add: q_def)
  have i0: "0 \<le> i" and il: "nat i < length xs" using c ceiling_le [OF q1] i' by linarith+
  have qi: "q \<le> of_int (i + 1)" "of_int i < q" using ceiling_correct [of q] by (simp_all add: i')
  have "i + 1 \<le> int (count_le xs (sort xs ! nat i))"
    using sorted_count_le [of "sort xs" "nat i"] il i0 by simp
  then have "of_int (i + 1) \<le> (of_int (int (count_le xs (sort xs ! nat i))) :: rat)" by (simp only: of_int_le_iff)
  with qi(1) have "of_int (p * int (length xs)) \<le> (of_int (100 * int (count_le xs (sort xs ! nat i))) :: rat)"
    by (simp add: q_def)
  then show "p * int (length xs) \<le> 100 * int (count_le xs (sort xs ! nat i))" by (simp only: of_int_le_iff)
  have "int (count_lt xs (sort xs ! nat i)) \<le> i"
    using sorted_count_lt [of "sort xs" "nat i"] il i0 by simp
  then have "of_int (int (count_lt xs (sort xs ! nat i))) \<le> (of_int i :: rat)" by (simp only: of_int_le_iff)
  with qi(2) have "of_int (100 * int (count_lt xs (sort xs ! nat i))) < (of_int (p * int (length xs)) :: rat)"
    by (simp add: q_def)
  then show "100 * int (count_lt xs (sort xs ! nat i)) < p * int (length xs)" by (simp only: of_int_less_iff)
qed

lemma summarize_fields:
  assumes "xs \<noteq> []"
  shows "ls_Count (summarize xs) = length xs" "ls_Min (summarize xs) = sort xs ! 0"
    "ls_P50 (summarize xs) = pct (sort xs) (f64 (1 / 2))" "ls_P95 (summarize xs) = pct (sort xs) (f64 (95 / 100))"
    "ls_P99 (summarize xs) = pct (sort xs) (f64 (99 / 100))" "ls_Max (summarize xs) = sort xs ! (length xs - 1)"
  using assms by (simp_all add: summarize_def Let_def)

lemma sort_nonempty: "xs \<noteq> [] \<Longrightarrow> sort xs \<noteq> []"
  by (metis length_0_conv length_sort)

lemma pct_sort:
  assumes "xs \<noteq> []"
  shows "pct (sort xs) p = sort xs ! nat (pct_index p (length xs))" and "pct (sort xs) p \<in> set xs"
proof -
  show "pct (sort xs) p = sort xs ! nat (pct_index p (length xs))" using assms by (simp add: pct_def)
  show "pct (sort xs) p \<in> set xs" using pct_in [OF sort_nonempty [OF assms], of p] by simp
qed

text \<open>C19: The latency percentiles are the nearest-rank percentiles in spite of binary rounding: for up to \<open>2 ^ 40\<close> samples, at
  least 95 percent of them are at most \<open>P95\<close> and less than 95 percent are below it, and likewise for the 50th
  and 99th percentile; each is one of the samples.\<close>

theorem summarize_percentiles:
  assumes "xs \<noteq> []" and "length xs \<le> 2 ^ 40" and "(p, v) \<in> {(50, ls_P50 (summarize xs)), (95, ls_P95 (summarize xs)), (99, ls_P99 (summarize xs))}"
  shows "v \<in> set xs \<and> p * int (length xs) \<le> 100 * int (count_le xs v) \<and> 100 * int (count_lt xs v) < p * int (length xs)"
proof -
  have n: "0 < length xs" using assms(1) by simp
  define i where "i = \<lceil>of_int p * of_nat (length xs) / 100 :: rat\<rceil> - 1"
  consider "p = 50" "v = pct (sort xs) (f64 (1 / 2))" | "p = 95" "v = pct (sort xs) (f64 (95 / 100))"
    | "p = 99" "v = pct (sort xs) (f64 (99 / 100))"
    using assms(3) summarize_fields [OF assms(1)] by auto
  then have 1: "v = sort xs ! nat i \<and> 0 < p \<and> p \<le> 100"
  proof cases
    case 1
    then show ?thesis using percentile_ranks(1) [OF n assms(2)] by (simp add: i_def pct_sort(1) [OF assms(1)])
  next
    case 2
    then show ?thesis using percentile_ranks(2) [OF n assms(2)] by (simp add: i_def pct_sort(1) [OF assms(1)])
  next
    case 3
    then show ?thesis using percentile_ranks(3) [OF n assms(2)] by (simp add: i_def pct_sort(1) [OF assms(1)])
  qed
  have "v \<in> set xs" using pct_sort(2) [OF assms(1)] assms(3) summarize_fields [OF assms(1)] by auto
  with 1 show ?thesis using rank_percentile [OF assms(1) i_def] by simp
qed

text \<open>The five-number summary is ordered, \<open>Min \<le> P50 \<le> P95 \<le> P99 \<le> Max\<close>, its extremes are the least and the greatest sample,
  and apart from the mean it does not depend on the order in which the samples were collected.\<close>

theorem summarize_ordered:
  assumes "xs \<noteq> []" and "mset xs = mset ys"
  shows "ls_Min (summarize xs) = Min (set xs) \<and> ls_Min (summarize xs) \<le> ls_P50 (summarize xs) \<and> ls_P50 (summarize xs) \<le> ls_P95 (summarize xs)
    \<and> ls_P95 (summarize xs) \<le> ls_P99 (summarize xs) \<and> ls_P99 (summarize xs) \<le> ls_Max (summarize xs) \<and> ls_Max (summarize xs) = Max (set xs)
    \<and> ls_Count (summarize xs) = length ys \<and> summarize ys = (summarize xs)\<lparr>ls_Mean := ls_Mean (summarize ys)\<rparr>"
proof -
  have xs: "0 < length xs" and l: "length ys = length xs" using assms(1) mset_eq_length [OF assms(2)] by auto
  have s: "sort ys = sort xs" using assms(2) by (metis sorted_list_of_multiset_mset)
  have ys: "ys \<noteq> []" using xs l by auto
  note f = summarize_fields [OF assms(1)]
  have le: "f64 (1 / 2) \<le> f64 (95 / 100)" "f64 (95 / 100) \<le> f64 (99 / 100)" by (rule f64_mono, simp)+
  have nth: "sort xs ! i \<le> sort xs ! j" if "i \<le> j" "j < length xs" for i j
    using that by (intro sorted_nth_mono) auto
  have lohi: "sort xs ! 0 \<le> v \<and> v \<le> sort xs ! (length xs - 1)" if "v \<in> set xs" for v
  proof -
    from that obtain i where "i < length xs" "v = sort xs ! i" by (metis in_set_conv_nth length_sort set_sort)
    then show ?thesis using nth [of 0 i] nth [of i "length xs - 1"] by simp
  qed
  have mem: "sort xs ! i \<in> set xs" if "i < length xs" for i
    using that nth_mem [of i "sort xs"] by simp
  have mn: "sort xs ! 0 = Min (set xs)" "sort xs ! (length xs - 1) = Max (set xs)"
    using lohi mem xs by (auto intro!: Min_eqI [symmetric] Max_eqI [symmetric])
  have "summarize ys = (summarize xs)\<lparr>ls_Mean := ls_Mean (summarize ys)\<rparr>"
    using assms(1) ys s l by (simp add: summarize_def Let_def)
  then show ?thesis
    unfolding f using mn lohi pct_sort(2) [OF assms(1)] pct_mono [OF sorted_sort le(1)] pct_mono [OF sorted_sort le(2)] l by metis
qed

lemma minF_loop_Min: "minF_loop m xs = Min (insert m (set xs))"
proof (induction xs arbitrary: m)
  case (Cons x xs)
  have "Min (insert (if x < m then x else m) (set xs)) = Min (insert m (insert x (set xs)))"
    by (cases "set xs = {}") (auto simp: min_def)
  then show ?case using Cons by simp
qed simp

lemma maxF_loop_Max: "maxF_loop m xs = Max (insert m (set xs))"
proof (induction xs arbitrary: m)
  case (Cons x xs)
  have "Max (insert (if x > m then x else m) (set xs)) = Max (insert m (insert x (set xs)))"
    by (cases "set xs = {}") (auto simp: max_def)
  then show ?case using Cons by simp
qed simp

text \<open>Across runs, \<open>minF\<close> and \<open>maxF\<close> are the extremes and \<open>medianF\<close> is the upper median: one of the values, with at most half of them below
  and more than half at most it.\<close>

theorem medianF_is_upper_median:
  assumes "xs \<noteq> []"
  shows "medianF xs \<in> set xs \<and> 2 * count_lt xs (medianF xs) \<le> length xs \<and> length xs < 2 * count_le xs (medianF xs)
    \<and> minF xs = Min (set xs) \<and> maxF xs = Max (set xs)"
proof -
  have i: "length xs div 2 < length (sort xs)" using assms by simp
  have m: "medianF xs = sort xs ! (length xs div 2)" using assms by (simp add: medianF_def)
  have "medianF xs \<in> set xs" unfolding m using nth_mem [OF i] by simp
  moreover have "count_lt xs (medianF xs) \<le> length xs div 2" "Suc (length xs div 2) \<le> count_le xs (medianF xs)"
    unfolding m using sorted_count_lt [OF _ i] sorted_count_le [OF _ i] by simp_all
  moreover have "minF xs = Min (set xs)" "maxF xs = Max (set xs)"
    using assms by (cases xs; simp add: minF_def maxF_def minF_loop_Min maxF_loop_Max)+
  ultimately show ?thesis by linarith
qed

theorem summarize_percentiles_witness: "20 * count_le [3, 1, 2] (ls_P95 (summarize [3, 1, 2])) \<ge> 57"
  using summarize_percentiles [of "[3, 1, 2]" 95 "ls_P95 (summarize [3, 1, 2])"] by simp

theorem summarize_ordered_witness: "ls_Min (summarize [3, 1, 2]) = 1 \<and> ls_Max (summarize [2, 1, 3]) = 3"
  using summarize_ordered [of "[3, 1, 2]" "[3, 1, 2]"] summarize_ordered [of "[2, 1, 3]" "[3, 1, 2]"] by simp

theorem medianF_is_upper_median_witness: "medianF [4, 1, 3, 2] = 3 \<and> 2 * count_lt [4, 1, 3, 2] (medianF [4, 1, 3, 2]) \<le> 4"
  using medianF_is_upper_median [of "[4, 1, 3, 2]"] by (simp add: medianF_def)

end
