(* ===== verification/Analyze_Events.thy ===== *)
theory Analyze_Events
  imports Analyze_Stats Job_Codec "HOL-Library.AList"
begin

text \<open>
  The event stream of one run (\<^verbatim>\<open>analyzeReader\<close> of \<^verbatim>\<open>internal/analyze/analyze.go\<close>): decoding a line of the
  results file, the effect of each event kind on the accumulators, and the summary of the run.
  Times are nanoseconds since Go's zero time, so \<^verbatim>\<open>IsZero\<close> is \<open>= 0\<close>. The stream is a list of
  lines, each the document it holds or the syntax error in it; \<open>parse_time\<close> is the RFC 3339 reader
  of \<^verbatim>\<open>time.Time\<close>, \<open>scan_err\<close> the error the scanner ends with (a line of more than a megabyte).
\<close>

section \<open>Data\<close>

record TenantStats =
  tn_Enqueued :: int
  tn_Completed :: int
  tn_PickupLatency :: LatencyStats

record RunSummary =
  rs_RunID :: string
  Library :: string
  Scenario :: string
  SeedInfo :: "(string \<times> json) list"
  StartTime :: int
  EndTime :: int
  rs_Duration :: Duration
  rs_Enqueued :: int
  rs_Completed :: int
  rs_Failed :: int
  ThroughputCPS :: rat
  PickupLatency :: LatencyStats
  WorkDuration :: LatencyStats
  E2ELatency :: LatencyStats
  Errors :: "(string \<times> int) list"
  PerTenant :: "(string \<times> TenantStats) list"
  MaxGoroutines :: int
  MaxRSSBytes :: int

definition zero_RunSummary :: RunSummary where
  "zero_RunSummary = \<lparr>rs_RunID = '''', Library = '''', Scenario = '''', SeedInfo = [], StartTime = 0, EndTime = 0,
     rs_Duration = 0, rs_Enqueued = 0, rs_Completed = 0, rs_Failed = 0, ThroughputCPS = 0,
     PickupLatency = zero_LatencyStats, WorkDuration = zero_LatencyStats, E2ELatency = zero_LatencyStats,
     Errors = [], PerTenant = [], MaxGoroutines = 0, MaxRSSBytes = 0\<rparr>"

record rawEvent =
  ev_RunID :: string
  ev_Timestamp :: int
  ev_Kind :: string
  ev_Fields :: "(string \<times> json) list"

text \<open>The local variables of \<^verbatim>\<open>analyzeReader\<close>.\<close>

record accum =
  summary :: RunSummary
  enqueueTS :: "string \<rightharpoonup> int"
  startTS :: "string \<rightharpoonup> int"
  tenantByJob :: "string \<rightharpoonup> string"
  pickupLatencies :: "rat list"
  workDurations :: "rat list"
  e2eLatencies :: "rat list"
  perTenantPickup :: "string \<Rightarrow> rat list"
  perTenantCounts :: "(string \<times> TenantStats) list"
  warmupEnd :: int

definition init_accum :: accum where
  "init_accum = \<lparr>summary = zero_RunSummary, enqueueTS = Map.empty, startTS = Map.empty, tenantByJob = Map.empty,
     pickupLatencies = [], workDurations = [], e2eLatencies = [], perTenantPickup = (\<lambda>t. []),
     perTenantCounts = [], warmupEnd = 0\<rparr>"

section \<open>Decoding and arithmetic\<close>

definition unmarshal_event :: "(string \<Rightarrow> goerr + int) \<Rightarrow> json \<Rightarrow> goerr + rawEvent" where
  "unmarshal_event parse_time v =
     (case v of
        JObj ms \<Rightarrow>
          (case field_str (jget ms ''run_id'') of
             Inl e \<Rightarrow> Inl e
           | Inr r \<Rightarrow>
               (case (case jget ms ''timestamp'' of
                        None \<Rightarrow> Inr 0
                      | Some JNull \<Rightarrow> Inr 0
                      | Some (JStr s) \<Rightarrow> parse_time s
                      | Some _ \<Rightarrow> Inl (External ''Time.UnmarshalJSON: input is not a JSON string'')) of
                  Inl e \<Rightarrow> Inl e
                | Inr t \<Rightarrow>
                    (case field_str (jget ms ''kind'') of
                       Inl e \<Rightarrow> Inl e
                     | Inr k \<Rightarrow>
                         (case jget ms ''fields'' of
                            None \<Rightarrow> Inr \<lparr>ev_RunID = r, ev_Timestamp = t, ev_Kind = k, ev_Fields = []\<rparr>
                          | Some JNull \<Rightarrow> Inr \<lparr>ev_RunID = r, ev_Timestamp = t, ev_Kind = k, ev_Fields = []\<rparr>
                          | Some (JObj fs) \<Rightarrow> Inr \<lparr>ev_RunID = r, ev_Timestamp = t, ev_Kind = k, ev_Fields = fs\<rparr>
                          | Some _ \<Rightarrow> Inl (External ''json: cannot unmarshal value'')))))
      | JNull \<Rightarrow> Inr \<lparr>ev_RunID = '''', ev_Timestamp = 0, ev_Kind = '''', ev_Fields = []\<rparr>
      | _ \<Rightarrow> Inl (External ''json: cannot unmarshal value''))"

text \<open>A string member of \<^verbatim>\<open>Fields\<close>, by type assertion.\<close>

definition str_field :: "(string \<times> json) list \<Rightarrow> string \<Rightarrow> string option" where
  "str_field fs k = (case jget fs k of Some (JStr s) \<Rightarrow> Some s | _ \<Rightarrow> None)"

definition str_or_empty :: "(string \<times> json) list \<Rightarrow> string \<Rightarrow> string" where
  "str_or_empty fs k = (case str_field fs k of Some s \<Rightarrow> s | None \<Rightarrow> '''')"

text \<open>Conversion of a float to \<^verbatim>\<open>int64\<close>: towards zero; out of range it gives the least integer, as on amd64.\<close>

definition trunc_int64 :: "rat \<Rightarrow> int" where
  "trunc_int64 x =
     (let i = (if x < 0 then \<lceil>x\<rceil> else \<lfloor>x\<rfloor>) in if in_int64 i then i else - (2 ^ 63))"

text \<open>Numbers in \<^verbatim>\<open>Fields\<close> are \<^verbatim>\<open>float64\<close>: the other branches of the type switch are not taken for decoded JSON.\<close>

definition asInt64 :: "json option \<Rightarrow> int option" where
  "asInt64 v = (case v of Some (JNum q) \<Rightarrow> Some (trunc_int64 (f64 q)) | _ \<Rightarrow> None)"

text \<open>\<^verbatim>\<open>time.Time.Sub\<close> saturates; \<^verbatim>\<open>Microseconds\<close> truncates.\<close>

definition time_sub :: "int \<Rightarrow> int \<Rightarrow> Duration" where
  "time_sub t u = max (- (2 ^ 63)) (min (2 ^ 63 - 1) (t - u))"

definition quot_trunc :: "int \<Rightarrow> int \<Rightarrow> int" where
  "quot_trunc a b = (if a < 0 then - ((- a) div b) else a div b)"

definition Microseconds :: "Duration \<Rightarrow> int" where
  "Microseconds d = quot_trunc d 1000"

definition Seconds :: "Duration \<Rightarrow> rat" where
  "Seconds d =
     (let sec = quot_trunc d Second; nsec = d - sec * Second
      in f64 (f64 (of_int sec) + f64 (f64 (of_int nsec) / 1000000000)))"

definition lat_ms :: "int \<Rightarrow> int \<Rightarrow> rat" where
  "lat_ms t u = f64 (f64 (of_int (Microseconds (time_sub t u))) / 1000)"

definition WarmupDefault :: Duration where
  "WarmupDefault = 2 * Second"

definition in_warmup :: "accum \<Rightarrow> int \<Rightarrow> bool" where
  "in_warmup a t \<longleftrightarrow> warmupEnd a \<noteq> 0 \<and> t < warmupEnd a"

text \<open>Counting maps, as association lists: \<^verbatim>\<open>m[k]++\<close>.\<close>

definition bump :: "string \<Rightarrow> (string \<times> int) list \<Rightarrow> (string \<times> int) list" where
  "bump k m = AList.update k ((case map_of m k of None \<Rightarrow> 0 | Some n \<Rightarrow> n) + 1) m"

section \<open>The cases of the switch\<close>

definition on_run_start :: "rawEvent \<Rightarrow> accum \<Rightarrow> accum" where
  "on_run_start ev a =
     a\<lparr>warmupEnd := ev_Timestamp ev + WarmupDefault,
       summary := (summary a)\<lparr>StartTime := ev_Timestamp ev, rs_RunID := ev_RunID ev,
         Library := (case str_field (ev_Fields ev) ''library'' of Some l \<Rightarrow> l | None \<Rightarrow> Library (summary a)),
         Scenario := (case str_field (ev_Fields ev) ''scenario'' of Some l \<Rightarrow> l | None \<Rightarrow> Scenario (summary a)),
         SeedInfo := ev_Fields ev\<rparr>\<rparr>"

definition on_run_end :: "rawEvent \<Rightarrow> accum \<Rightarrow> accum" where
  "on_run_end ev a =
     a\<lparr>summary := (summary a)\<lparr>EndTime := ev_Timestamp ev,
         rs_Completed := (case asInt64 (jget (ev_Fields ev) ''completed'') of Some c \<Rightarrow> c | None \<Rightarrow> rs_Completed (summary a)),
         rs_Enqueued := (case asInt64 (jget (ev_Fields ev) ''enqueued'') of Some c \<Rightarrow> c | None \<Rightarrow> rs_Enqueued (summary a)),
         rs_Failed := (case asInt64 (jget (ev_Fields ev) ''failed'') of Some c \<Rightarrow> c | None \<Rightarrow> rs_Failed (summary a))\<rparr>\<rparr>"

definition zero_TenantStats :: TenantStats where
  "zero_TenantStats = \<lparr>tn_Enqueued = 0, tn_Completed = 0, tn_PickupLatency = zero_LatencyStats\<rparr>"

definition on_job_enqueued :: "rawEvent \<Rightarrow> accum \<Rightarrow> accum" where
  "on_job_enqueued ev a =
     (let jobID = str_or_empty (ev_Fields ev) ''job_id''; tenantID = str_or_empty (ev_Fields ev) ''tenant_id'';
          ts = (case map_of (perTenantCounts a) tenantID of None \<Rightarrow> zero_TenantStats | Some ts \<Rightarrow> ts)
      in a\<lparr>enqueueTS := (enqueueTS a)(jobID \<mapsto> ev_Timestamp ev), tenantByJob := (tenantByJob a)(jobID \<mapsto> tenantID),
           perTenantCounts := AList.update tenantID (ts\<lparr>tn_Enqueued := tn_Enqueued ts + 1\<rparr>) (perTenantCounts a)\<rparr>)"

definition on_job_started :: "rawEvent \<Rightarrow> accum \<Rightarrow> accum" where
  "on_job_started ev a =
     (let jobID = str_or_empty (ev_Fields ev) ''job_id'';
          a1 = a\<lparr>startTS := (startTS a)(jobID \<mapsto> ev_Timestamp ev)\<rparr>
      in if in_warmup a (ev_Timestamp ev) then a1
         else case enqueueTS a jobID of
                None \<Rightarrow> a1
              | Some enq \<Rightarrow>
                  let latMs = lat_ms (ev_Timestamp ev) enq;
                      a2 = a1\<lparr>pickupLatencies := pickupLatencies a @ [latMs]\<rparr>
                  in (case tenantByJob a jobID of
                        None \<Rightarrow> a2
                      | Some t \<Rightarrow> a2\<lparr>perTenantPickup := (perTenantPickup a)(t := perTenantPickup a t @ [latMs])\<rparr>))"

definition on_job_completed :: "rawEvent \<Rightarrow> accum \<Rightarrow> accum" where
  "on_job_completed ev a =
     (let jobID = str_or_empty (ev_Fields ev) ''job_id''; tenantID = str_or_empty (ev_Fields ev) ''tenant_id'';
          a1 = (case map_of (perTenantCounts a) tenantID of
                  None \<Rightarrow> a
                | Some ts \<Rightarrow> a\<lparr>perTenantCounts :=
                    AList.update tenantID (ts\<lparr>tn_Completed := tn_Completed ts + 1\<rparr>) (perTenantCounts a)\<rparr>)
      in if in_warmup a (ev_Timestamp ev) then a1
         else a1\<lparr>workDurations := workDurations a @
                   (case startTS a jobID of None \<Rightarrow> [] | Some st \<Rightarrow> [lat_ms (ev_Timestamp ev) st]),
                 e2eLatencies := e2eLatencies a @
                   (case enqueueTS a jobID of None \<Rightarrow> [] | Some enq \<Rightarrow> [lat_ms (ev_Timestamp ev) enq])\<rparr>)"

definition error_class_of :: "rawEvent \<Rightarrow> string" where
  "error_class_of ev =
     (let class = str_or_empty (ev_Fields ev) ''error_class'' in if class = '''' then ''unclassified'' else class)"

definition on_job_failed :: "rawEvent \<Rightarrow> accum \<Rightarrow> accum" where
  "on_job_failed ev a =
     a\<lparr>summary := (summary a)\<lparr>Errors := bump (error_class_of ev) (Errors (summary a))\<rparr>\<rparr>"

definition on_resource_sample :: "rawEvent \<Rightarrow> accum \<Rightarrow> accum" where
  "on_resource_sample ev a =
     a\<lparr>summary := (summary a)\<lparr>
         MaxGoroutines := (case asInt64 (jget (ev_Fields ev) ''goroutines'') of
            Some g \<Rightarrow> if g > MaxGoroutines (summary a) then g else MaxGoroutines (summary a)
          | None \<Rightarrow> MaxGoroutines (summary a)),
         MaxRSSBytes := (case asInt64 (jget (ev_Fields ev) ''rss_bytes'') of
            Some r \<Rightarrow> if r > MaxRSSBytes (summary a) then r else MaxRSSBytes (summary a)
          | None \<Rightarrow> MaxRSSBytes (summary a))\<rparr>\<rparr>"

definition analyze_event :: "rawEvent \<Rightarrow> accum \<Rightarrow> accum" where
  "analyze_event ev a =
     (if ev_Kind ev = ''run_start'' then on_run_start ev a
      else if ev_Kind ev = ''run_end'' then on_run_end ev a
      else if ev_Kind ev = ''job_enqueued'' then on_job_enqueued ev a
      else if ev_Kind ev = ''job_started'' then on_job_started ev a
      else if ev_Kind ev = ''job_completed'' then on_job_completed ev a
      else if ev_Kind ev = ''job_failed'' then on_job_failed ev a
      else if ev_Kind ev = ''resource_sample'' then on_resource_sample ev a
      else a)"

section \<open>The whole stream\<close>

definition decode_line :: "(string \<Rightarrow> goerr + int) \<Rightarrow> goerr + json \<Rightarrow> goerr + rawEvent" where
  "decode_line pt l = (case l of Inl e \<Rightarrow> Inl e | Inr j \<Rightarrow> unmarshal_event pt j)"

fun scan_lines ::
    "(string \<Rightarrow> goerr + int) \<Rightarrow> string \<Rightarrow> (goerr + json) list \<Rightarrow> accum \<Rightarrow> accum \<times> goerr option" where
  "scan_lines pt filename [] a = (a, None)"
| "scan_lines pt filename (l # ls) a =
     (case decode_line pt l of
        Inl e \<Rightarrow> (a, Some (Errorf (''parse '' @ filename @ '': '') e))
      | Inr ev \<Rightarrow> scan_lines pt filename ls (analyze_event ev a))"

definition finish_summary :: "accum \<Rightarrow> RunSummary \<times> goerr option" where
  "finish_summary a =
     (let s = summary a in
      if StartTime s = 0 \<or> EndTime s = 0 then (s, Some (ErrorsNew ''run_start or run_end event missing''))
      else
        let d = time_sub (EndTime s) (StartTime s) in
        (s\<lparr>rs_Duration := d,
           ThroughputCPS := (if d > 0 \<and> rs_Completed s > 0 then f64 (f64 (of_int (rs_Completed s)) / Seconds d) else ThroughputCPS s),
           PickupLatency := summarize (pickupLatencies a), WorkDuration := summarize (workDurations a),
           E2ELatency := summarize (e2eLatencies a),
           PerTenant := map (\<lambda>(tid, ts). (tid, ts\<lparr>tn_PickupLatency := summarize (perTenantPickup a tid)\<rparr>)) (perTenantCounts a)\<rparr>, None))"

definition analyzeReader ::
    "(string \<Rightarrow> goerr + int) \<Rightarrow> goerr option \<Rightarrow> (goerr + json) list \<Rightarrow> string \<Rightarrow> RunSummary \<times> goerr option" where
  "analyzeReader parse_time scan_err ls filename =
     (case scan_lines parse_time filename ls init_accum of
        (a, Some e) \<Rightarrow> (summary a, Some e)
      | (a, None) \<Rightarrow>
          (case scan_err of Some e \<Rightarrow> (summary a, Some e) | None \<Rightarrow> finish_summary a))"

section \<open>Reference definitions\<close>

text \<open>The timestamp of the last event of a kind for a job, and the end of the warm-up, in a prefix of the stream.\<close>

fun last_time :: "string \<Rightarrow> string \<Rightarrow> rawEvent list \<Rightarrow> int option" where
  "last_time kind job [] = None"
| "last_time kind job (e # es) =
     (case last_time kind job es of
        Some t \<Rightarrow> Some t
      | None \<Rightarrow> if ev_Kind e = kind \<and> str_or_empty (ev_Fields e) ''job_id'' = job then Some (ev_Timestamp e) else None)"

fun warm_until :: "rawEvent list \<Rightarrow> int" where
  "warm_until [] = 0"
| "warm_until (e # es) =
     (if \<exists>x \<in> set es. ev_Kind x = ''run_start'' then warm_until es
      else if ev_Kind e = ''run_start'' then ev_Timestamp e + WarmupDefault else 0)"

text \<open>
  The samples of a pair of event kinds: every event of kind \<open>to\<close> after the warm-up whose job has an
  earlier event of kind \<open>from\<close>, in the order of the stream, with the time in between.
\<close>

definition sample_at :: "string \<Rightarrow> string \<Rightarrow> rawEvent list \<Rightarrow> rawEvent \<Rightarrow> rat list" where
  "sample_at from to before e =
     (if ev_Kind e = to \<and> \<not> (warm_until before \<noteq> 0 \<and> ev_Timestamp e < warm_until before)
      then case last_time from (str_or_empty (ev_Fields e) ''job_id'') before of
             None \<Rightarrow> [] | Some t \<Rightarrow> [lat_ms (ev_Timestamp e) t]
      else [])"

definition samples :: "string \<Rightarrow> string \<Rightarrow> rawEvent list \<Rightarrow> rat list" where
  "samples from to es = concat (map (\<lambda>i. sample_at from to (take i es) (es ! i)) [0..<length es])"

definition count_kind :: "string \<Rightarrow> rawEvent list \<Rightarrow> nat" where
  "count_kind k es = length (filter (\<lambda>e. ev_Kind e = k) es)"

definition sample_line :: "int \<Rightarrow> string \<Rightarrow> (string \<times> json) list \<Rightarrow> goerr + json" where
  "sample_line t k fs = Inr (JObj [(''run_id'', JStr ''r''), (''timestamp'', JStr (dec_of_int t)), (''kind'', JStr k), (''fields'', JObj fs)])"

definition sample_time :: "string \<Rightarrow> goerr + int" where
  "sample_time s = Inr (int (nat_of_dec s))"

definition sample_event :: "int \<Rightarrow> string \<Rightarrow> (string \<times> json) list \<Rightarrow> rawEvent" where
  "sample_event t k fs = \<lparr>ev_RunID = ''r'', ev_Timestamp = t, ev_Kind = k, ev_Fields = fs\<rparr>"

definition sample_log :: "(int \<times> string \<times> (string \<times> json) list) list" where
  "sample_log = [(1, ''run_start'', [(''library'', JStr ''river'')]),
     (3000000000, ''job_enqueued'', [(''job_id'', JStr ''j''), (''tenant_id'', JStr ''t'')]),
     (3005000000, ''job_started'', [(''job_id'', JStr ''j'')]),
     (4000000000, ''job_failed'', []),
     (5000000000, ''run_end'', [(''completed'', JNum 0)])]"


section \<open>Facts\<close>

lemmas event_defs = on_run_start_def on_run_end_def on_job_enqueued_def on_job_started_def on_job_completed_def
  on_job_failed_def on_resource_sample_def

lemma last_time_snoc:
  "last_time k j (es @ [e]) = (if ev_Kind e = k \<and> str_or_empty (ev_Fields e) ''job_id'' = j then Some (ev_Timestamp e) else last_time k j es)"
  by (induction es) (auto split: option.split)

lemma warm_until_snoc:
  "warm_until (es @ [e]) = (if ev_Kind e = ''run_start'' then ev_Timestamp e + WarmupDefault else warm_until es)"
  by (induction es) auto

lemma samples_snoc: "samples f t (es @ [e]) = samples f t es @ sample_at f t es e"
proof -
  have "map (\<lambda>i. sample_at f t (take i (es @ [e])) ((es @ [e]) ! i)) [0..<length es] = map (\<lambda>i. sample_at f t (take i es) (es ! i)) [0..<length es]"
    by (intro map_cong) (simp_all add: nth_append)
  then have "concat (map (\<lambda>i. sample_at f t (take i (es @ [e])) ((es @ [e]) ! i)) [0..<length es]) = samples f t es"
    unfolding samples_def by (rule arg_cong)
  then show ?thesis by (simp add: samples_def [of f t "es @ [e]"])
qed

lemma samples_Nil [simp]: "samples f t [] = []"
  by (simp add: samples_def)

text \<open>What each accumulator holds after one event.\<close>

lemma analyze_event_warm:
  "warmupEnd (analyze_event e a) = (if ev_Kind e = ''run_start'' then ev_Timestamp e + WarmupDefault else warmupEnd a)"
  by (simp add: analyze_event_def event_defs Let_def split: option.split)

lemma analyze_event_enqueueTS:
  "enqueueTS (analyze_event e a) = (if ev_Kind e = ''job_enqueued''
     then (enqueueTS a)(str_or_empty (ev_Fields e) ''job_id'' \<mapsto> ev_Timestamp e) else enqueueTS a)"
  by (simp add: analyze_event_def event_defs Let_def split: option.split)

lemma analyze_event_startTS:
  "startTS (analyze_event e a) = (if ev_Kind e = ''job_started''
     then (startTS a)(str_or_empty (ev_Fields e) ''job_id'' \<mapsto> ev_Timestamp e) else startTS a)"
  by (simp add: analyze_event_def event_defs Let_def split: option.split)

lemma analyze_event_pickup:
  "pickupLatencies (analyze_event e a) = pickupLatencies a @
     (if ev_Kind e = ''job_started'' \<and> \<not> in_warmup a (ev_Timestamp e)
      then case enqueueTS a (str_or_empty (ev_Fields e) ''job_id'') of None \<Rightarrow> [] | Some t \<Rightarrow> [lat_ms (ev_Timestamp e) t] else [])"
  by (simp add: analyze_event_def event_defs Let_def split: option.split)

lemma analyze_event_work:
  "workDurations (analyze_event e a) = workDurations a @
     (if ev_Kind e = ''job_completed'' \<and> \<not> in_warmup a (ev_Timestamp e)
      then case startTS a (str_or_empty (ev_Fields e) ''job_id'') of None \<Rightarrow> [] | Some t \<Rightarrow> [lat_ms (ev_Timestamp e) t] else [])"
  by (simp add: analyze_event_def event_defs Let_def split: option.split)

lemma analyze_event_e2e:
  "e2eLatencies (analyze_event e a) = e2eLatencies a @
     (if ev_Kind e = ''job_completed'' \<and> \<not> in_warmup a (ev_Timestamp e)
      then case enqueueTS a (str_or_empty (ev_Fields e) ''job_id'') of None \<Rightarrow> [] | Some t \<Rightarrow> [lat_ms (ev_Timestamp e) t] else [])"
  by (simp add: analyze_event_def event_defs Let_def split: option.split)

lemma fold_snoc: "fold f (xs @ [x]) a = f x (fold f xs a)"
  by simp

lemma accum_spec:
  defines "A \<equiv> (\<lambda>es. fold analyze_event es init_accum)"
  shows "warmupEnd (A es) = warm_until es" and "enqueueTS (A es) j = last_time ''job_enqueued'' j es"
    and "startTS (A es) j = last_time ''job_started'' j es"
  by (induction es rule: rev_induct)
     (simp_all add: A_def init_accum_def analyze_event_warm analyze_event_enqueueTS analyze_event_startTS last_time_snoc warm_until_snoc)

lemma accum_samples:
  defines "A \<equiv> (\<lambda>es. fold analyze_event es init_accum)"
  shows "pickupLatencies (A es) = samples ''job_enqueued'' ''job_started'' es"
    and "workDurations (A es) = samples ''job_started'' ''job_completed'' es"
    and "e2eLatencies (A es) = samples ''job_enqueued'' ''job_completed'' es"
proof (induction es rule: rev_induct)
  case (snoc e es)
  note sp = accum_spec [of es, folded A_def]
  have w: "in_warmup (A es) t \<longleftrightarrow> warm_until es \<noteq> 0 \<and> t < warm_until es" for t
    using accum_spec(1) [of es] by (simp add: in_warmup_def A_def)
  have A: "A (es @ [e]) = analyze_event e (A es)" by (simp add: A_def)
  { case 1 show ?case unfolding A analyze_event_pickup samples_snoc snoc(1) w sample_at_def
      using accum_spec(2) [of es] by (auto simp: A_def) }
  { case 2 show ?case unfolding A analyze_event_work samples_snoc snoc(2) w sample_at_def
      using accum_spec(3) [of es] by (auto simp: A_def) }
  { case 3 show ?case unfolding A analyze_event_e2e samples_snoc snoc(3) w sample_at_def
      using accum_spec(2) [of es] by (auto simp: A_def) }
qed (simp_all add: A_def init_accum_def)

lemma scan_lines_ok:
  "map (decode_line pt) ls = map Inr es \<Longrightarrow> scan_lines pt f ls a = (fold analyze_event es a, None)"
proof (induction ls arbitrary: es a)
  case (Cons l ls)
  then obtain e es' where "es = e # es'" "decode_line pt l = Inr e" "map (decode_line pt) ls = map Inr es'"
    by (auto simp: Cons_eq_map_conv map_eq_Cons_conv)
  then show ?case using Cons.IH [of es'] by simp
qed simp

lemma scan_lines_bad:
  "map (decode_line pt) ls = map Inr es @ Inl e # rest \<Longrightarrow>
   scan_lines pt f ls a = (fold analyze_event es a, Some (Errorf (''parse '' @ f @ '': '') e))"
proof (induction ls arbitrary: es a)
  case (Cons l ls)
  show ?case
  proof (cases es)
    case Nil
    then show ?thesis using Cons.prems by simp
  next
    case (Cons x es')
    then show ?thesis using Cons.prems Cons.IH [of es'] by simp
  qed
qed simp

lemma sum_update:
  "distinct (map fst al) \<Longrightarrow> sum_list (map (\<lambda>(k, v). f v) (AList.update k v al)) =
     sum_list (map (\<lambda>(k, v). f v) al) + f v - (case map_of al k of None \<Rightarrow> 0 | Some u \<Rightarrow> (f u :: int))"
  by (induction al) (auto split: option.splits simp: map_of_eq_None_iff)

lemma accum_counts:
  defines "A \<equiv> (\<lambda>es. fold analyze_event es init_accum)"
  shows "distinct (map fst (perTenantCounts (A es))) \<and> sum_list (map (\<lambda>(k, v). tn_Enqueued v) (perTenantCounts (A es))) = int (count_kind ''job_enqueued'' es)"
    and "distinct (map fst (Errors (summary (A es)))) \<and> sum_list (map (\<lambda>(k, v). v) (Errors (summary (A es)))) = int (count_kind ''job_failed'' es)"
proof (induction es rule: rev_induct)
  case (snoc e es)
  have A: "A (es @ [e]) = analyze_event e (A es)" by (simp add: A_def)
  { case 1
    show ?case using snoc(1) sum_update [of "perTenantCounts (A es)" tn_Enqueued]
      unfolding A by (auto simp: analyze_event_def event_defs count_kind_def Let_def distinct_update zero_TenantStats_def split: option.splits) }
  { case 2
    show ?case using snoc(2) sum_update [of "Errors (summary (A es))" "\<lambda>v. v"]
      unfolding A by (auto simp: analyze_event_def event_defs count_kind_def Let_def distinct_update bump_def split: option.splits) }
qed (simp_all add: A_def init_accum_def count_kind_def zero_RunSummary_def)

lemma analyzeReader_ok:
  assumes "map (decode_line pt) ls = map Inr es" and "analyzeReader pt None ls f = (s, None)"
  shows "finish_summary (fold analyze_event es init_accum) = (s, None)"
  using assms by (simp add: analyzeReader_def scan_lines_ok)


text \<open>C34: The per-tenant enqueue counts of a summary add up to the \<^verbatim>\<open>job_enqueued\<close> events of the file, and the
  error classes to its \<^verbatim>\<open>job_failed\<close> events, with one entry per tenant and per class.\<close>

theorem analyzeReader_counts:
  assumes "map (decode_line pt) ls = map Inr es" and "analyzeReader pt None ls f = (s, None)"
  shows "distinct (map fst (PerTenant s)) \<and> sum_list (map (\<lambda>(t, ts). tn_Enqueued ts) (PerTenant s)) = int (count_kind ''job_enqueued'' es)
    \<and> distinct (map fst (Errors s)) \<and> sum_list (map snd (Errors s)) = int (count_kind ''job_failed'' es)"
proof -
  let ?a = "fold analyze_event es init_accum"
  have s: "Errors s = Errors (summary ?a)"
    "PerTenant s = map (\<lambda>(tid, ts). (tid, ts\<lparr>tn_PickupLatency := summarize (perTenantPickup ?a tid)\<rparr>)) (perTenantCounts ?a)"
    using analyzeReader_ok [OF assms] unfolding finish_summary_def Let_def by (auto split: if_splits)
  have m: "map fst (PerTenant s) = map fst (perTenantCounts ?a)"
    "map (\<lambda>(t, ts). tn_Enqueued ts) (PerTenant s) = map (\<lambda>(k, v). tn_Enqueued v) (perTenantCounts ?a)"
    unfolding s by (simp_all add: comp_def case_prod_beta)
  have "(\<lambda>(k, v). v) = (snd :: string \<times> int \<Rightarrow> int)" by auto
  then show ?thesis using accum_counts [of es] unfolding m s(1) by simp
qed


lemma sample_decode: "0 \<le> t \<Longrightarrow> decode_line sample_time (sample_line t k fs) = Inr (sample_event t k fs)"
  by (simp add: decode_line_def sample_line_def sample_event_def unmarshal_event_def sample_time_def dec_of_int_def)

lemma sample_log_decodes:
  "map (decode_line sample_time) (map (\<lambda>(t, k, fs). sample_line t k fs) sample_log) = map Inr (map (\<lambda>(t, k, fs). sample_event t k fs) sample_log)"
  by (simp add: sample_log_def sample_decode)

lemma sample_log_ok: "\<exists>s. analyzeReader sample_time None (map (\<lambda>(t, k, fs). sample_line t k fs) sample_log) f = (s, None)"
  unfolding analyzeReader_def scan_lines_ok [OF sample_log_decodes]
  by (simp add: sample_log_def sample_event_def analyze_event_def event_defs finish_summary_def init_accum_def zero_RunSummary_def Let_def in_warmup_def)

lemma samples_five:
  "samples f t [a, b, c, d, e] = sample_at f t [] a @ sample_at f t [a] b @ sample_at f t [a, b] c @ sample_at f t [a, b, c] d
     @ sample_at f t [a, b, c, d] e"
  using samples_snoc [of f t "[]" a] samples_snoc [of f t "[a]" b] samples_snoc [of f t "[a, b]" c]
    samples_snoc [of f t "[a, b, c]" d] samples_snoc [of f t "[a, b, c, d]" e] by simp

lemma sample_latency: "lat_ms 3005000000 3000000000 = 5"
proof -
  have "time_sub 3005000000 3000000000 = 5000000" "Microseconds 5000000 = 5000" by code_simp+
  then show ?thesis using f64_int [of 5000] f64_int [of 5] by (simp add: lat_ms_def)
qed


theorem analyzeReader_counts_witness:
  "\<exists>s. analyzeReader sample_time None (map (\<lambda>(t, k, fs). sample_line t k fs) sample_log) ''f'' = (s, None) \<and> sum_list (map snd (Errors s)) = 1"
proof -
  obtain s where s: "analyzeReader sample_time None (map (\<lambda>(t, k, fs). sample_line t k fs) sample_log) ''f'' = (s, None)"
    using sample_log_ok by blast
  show ?thesis
    using analyzeReader_counts [OF sample_log_decodes s] s by (simp add: count_kind_def sample_log_def sample_event_def)
qed

end
