(* ===== verification/Analyze_Report.thy ===== *)
theory Analyze_Report
  imports Analyze_Events "HOL-Library.List_Lexorder" "HOL-Library.Char_ord" "HOL-Library.Product_Lexorder"
begin

text \<open>
  From run summaries to the report (the second half of \<^verbatim>\<open>internal/analyze/analyze.go\<close>): reading a directory,
  grouping the runs, statistics across runs, and the Markdown text. Strings are bytes and compare
  bytewise, as in Go; a \<^verbatim>\<open>sort.SliceStable\<close> is the library's stable \<open>sort_key\<close>. A map that the code ranges
  over is an association list in the order of the visit.
\<close>

section \<open>Reading a directory\<close>

text \<open>
  A directory entry: its name, whether it is a directory, and what opening it gives (an error, or its
  lines and the error the scanner ends with).
\<close>

record dir_entry =
  de_Name :: string
  de_IsDir :: bool
  de_Open :: "goerr + ((goerr + json) list \<times> goerr option)"

definition HasSuffix :: "string \<Rightarrow> string \<Rightarrow> bool" where
  "HasSuffix s suf \<longleftrightarrow> length suf \<le> length s \<and> drop (length s - length suf) s = suf"

definition Analyze :: "(string \<Rightarrow> goerr + int) \<Rightarrow> dir_entry \<Rightarrow> RunSummary \<times> goerr option" where
  "Analyze parse_time e =
     (case de_Open e of
        Inl err \<Rightarrow> (zero_RunSummary, Some err)
      | Inr (ls, scan_err) \<Rightarrow> analyzeReader parse_time scan_err ls (de_Name e))"

fun analyze_entries :: "(string \<Rightarrow> goerr + int) \<Rightarrow> dir_entry list \<Rightarrow> RunSummary list \<Rightarrow> goerr + RunSummary list" where
  "analyze_entries pt [] out = Inr out"
| "analyze_entries pt (e # es) out =
     (if de_IsDir e \<or> \<not> HasSuffix (de_Name e) ''.jsonl'' then analyze_entries pt es out
      else case Analyze pt e of
             (s, Some err) \<Rightarrow> Inl (Errorf (de_Name e @ '': '') err)
           | (s, None) \<Rightarrow> analyze_entries pt es (out @ [s]))"

definition run_key :: "RunSummary \<Rightarrow> string \<times> string \<times> int" where
  "run_key s = (Scenario s, Library s, StartTime s)"

definition AnalyzeDir :: "(string \<Rightarrow> goerr + int) \<Rightarrow> goerr + dir_entry list \<Rightarrow> goerr + RunSummary list" where
  "AnalyzeDir pt entries =
     (case entries of
        Inl e \<Rightarrow> Inl e
      | Inr es \<Rightarrow>
          (case analyze_entries pt es [] of
             Inl e \<Rightarrow> Inl e
           | Inr summaries \<Rightarrow> Inr (sort_key run_key summaries)))"

section \<open>Groups\<close>

record Group =
  g_Library :: string
  g_Scenario :: string
  g_Runs :: "RunSummary list"
  MedThroughput :: rat
  MedPickupP50 :: rat
  MedPickupP95 :: rat
  MedPickupP99 :: rat
  MedWorkP50 :: rat
  MedE2EP95 :: rat
  MinThroughput :: rat
  MaxThroughput :: rat
  MinPickupP95 :: rat
  MaxPickupP95 :: rat
  MedMaxGoroutines :: int
  MedMaxRSSMB :: rat
  TotalEnqueued :: int
  TotalCompleted :: int
  TotalFailed :: int

definition new_Group :: "string \<Rightarrow> string \<Rightarrow> Group" where
  "new_Group lib sc = \<lparr>g_Library = lib, g_Scenario = sc, g_Runs = [], MedThroughput = 0, MedPickupP50 = 0, MedPickupP95 = 0,
     MedPickupP99 = 0, MedWorkP50 = 0, MedE2EP95 = 0, MinThroughput = 0, MaxThroughput = 0, MinPickupP95 = 0, MaxPickupP95 = 0,
     MedMaxGoroutines = 0, MedMaxRSSMB = 0, TotalEnqueued = 0, TotalCompleted = 0, TotalFailed = 0\<rparr>"

definition group_key :: "RunSummary \<Rightarrow> string" where
  "group_key r = Library r @ ''|'' @ Scenario r"

definition add_run :: "RunSummary \<Rightarrow> (string \<times> Group) list \<Rightarrow> (string \<times> Group) list" where
  "add_run r byKey =
     (let g = (case map_of byKey (group_key r) of None \<Rightarrow> new_Group (Library r) (Scenario r) | Some g \<Rightarrow> g)
      in AList.update (group_key r) (g\<lparr>g_Runs := g_Runs g @ [r]\<rparr>) byKey)"

definition total_int64 :: "(RunSummary \<Rightarrow> int) \<Rightarrow> RunSummary list \<Rightarrow> int \<Rightarrow> int" where
  "total_int64 f rs t = foldl (\<lambda>t r. int64_of (t + f r)) t rs"

definition rss_mb :: "RunSummary \<Rightarrow> rat" where
  "rss_mb r = f64 (f64 (f64 (of_int (MaxRSSBytes r)) / 1024) / 1024)"

definition populateGroupStats :: "Group \<Rightarrow> Group" where
  "populateGroupStats g =
     (if length (g_Runs g) = 0 then g
      else
        let rs = g_Runs g;
            thrs = map ThroughputCPS rs;
            p95s = map (\<lambda>r. ls_P95 (PickupLatency r)) rs
        in g\<lparr>TotalEnqueued := total_int64 rs_Enqueued rs (TotalEnqueued g),
             TotalCompleted := total_int64 rs_Completed rs (TotalCompleted g),
             TotalFailed := total_int64 rs_Failed rs (TotalFailed g),
             MedThroughput := medianF thrs,
             MedPickupP50 := medianF (map (\<lambda>r. ls_P50 (PickupLatency r)) rs),
             MedPickupP95 := medianF p95s,
             MedPickupP99 := medianF (map (\<lambda>r. ls_P99 (PickupLatency r)) rs),
             MedWorkP50 := medianF (map (\<lambda>r. ls_P50 (WorkDuration r)) rs),
             MedE2EP95 := medianF (map (\<lambda>r. ls_P95 (E2ELatency r)) rs),
             MinThroughput := minF thrs, MaxThroughput := maxF thrs,
             MinPickupP95 := minF p95s, MaxPickupP95 := maxF p95s,
             MedMaxGoroutines := trunc_int64 (medianF (float64Ints (map MaxGoroutines rs))),
             MedMaxRSSMB := medianF (map rss_mb rs)\<rparr>)"

definition group_order :: "Group \<Rightarrow> string \<times> string" where
  "group_order g = (g_Scenario g, g_Library g)"

text \<open>\<open>GroupRuns\<close> with the order in which the map of groups is visited made explicit.\<close>

definition GroupRuns_visiting :: "(string \<times> Group) list \<Rightarrow> Group list" where
  "GroupRuns_visiting byKey = sort_key group_order (map (\<lambda>kg. populateGroupStats (snd kg)) byKey)"

definition GroupRuns :: "RunSummary list \<Rightarrow> Group list" where
  "GroupRuns runs = GroupRuns_visiting (fold add_run runs [])"

definition flattenRuns :: "Group list \<Rightarrow> RunSummary list" where
  "flattenRuns groups = concat (map g_Runs groups)"

section \<open>The report\<close>

definition nl :: string where "nl = [CHR 0x0A]"
definition en_dash :: string where "en_dash = map char_of [226, 128, 147 :: nat]"
definition em_dash :: string where "em_dash = map char_of [226, 128, 148 :: nat]"
definition times_sign :: string where "times_sign = map char_of [195, 151 :: nat]"

fun zeros :: "nat \<Rightarrow> string" where
  "zeros 0 = []"
| "zeros (Suc n) = CHR ''0'' # zeros n"

text \<open>\<^verbatim>\<open>%.kf\<close>: the exact value rounded to \<open>k\<close> decimals, ties to even.\<close>

definition fmt_fixed :: "nat \<Rightarrow> rat \<Rightarrow> string" where
  "fmt_fixed k x =
     (let r = nat (round_even (\<bar>x\<bar> * 10 ^ k)); frac = dec_of_nat (r mod 10 ^ k)
      in (if x < 0 then ''-'' else '''') @ dec_of_nat (r div 10 ^ k)
         @ (if k = 0 then '''' else ''.'' @ zeros (k - length frac) @ frac))"

definition cell :: "string \<Rightarrow> string" where
  "cell s = '' '' @ s @ '' |''"

definition row :: "string list \<Rightarrow> string" where
  "row cs = ''|'' @ concat (map cell cs) @ nl"

definition code_span :: "string \<Rightarrow> string" where
  "code_span s = ''`'' @ s @ ''`''"

definition bold_range :: "nat \<Rightarrow> rat \<Rightarrow> rat \<Rightarrow> rat \<Rightarrow> string" where
  "bold_range k m lo hi = ''**'' @ fmt_fixed k m @ ''** ('' @ fmt_fixed k lo @ en_dash @ fmt_fixed k hi @ '')''"

definition rule_row :: "nat \<Rightarrow> string" where
  "rule_row n = ''|'' @ concat (replicate n ''---|'') @ nl"

definition renderScenarioGroupTable :: "Group list \<Rightarrow> string" where
  "renderScenarioGroupTable groups =
     row [''Library'', ''Runs'', ''Throughput (c/s) med (min'' @ en_dash @ ''max)'', ''Pickup p50 (med)'',
          ''Pickup p95 (med, min'' @ en_dash @ ''max)'', ''Pickup p99 (med)'', ''Work p50'', ''E2E p95'',
          ''Goroutines (med max)'', ''RSS MB (med max)'']
     @ rule_row 10
     @ concat (map (\<lambda>g. row [code_span (g_Library g), dec_of_nat (length (g_Runs g)),
          bold_range 1 (MedThroughput g) (MinThroughput g) (MaxThroughput g), fmt_fixed 2 (MedPickupP50 g),
          bold_range 1 (MedPickupP95 g) (MinPickupP95 g) (MaxPickupP95 g), fmt_fixed 1 (MedPickupP99 g),
          fmt_fixed 1 (MedWorkP50 g), fmt_fixed 1 (MedE2EP95 g), dec_of_int (MedMaxGoroutines g),
          fmt_fixed 1 (MedMaxRSSMB g)]) groups)
     @ nl"

text \<open>The sum of a class over the runs of a group; a class that is missing counts as zero.\<close>

definition class_count :: "string \<Rightarrow> RunSummary \<Rightarrow> int" where
  "class_count c r = (case map_of (Errors r) c of None \<Rightarrow> 0 | Some n \<Rightarrow> n)"

definition class_total :: "string \<Rightarrow> Group \<Rightarrow> int" where
  "class_total c g = total_int64 (class_count c) (g_Runs g) 0"

definition any_errors :: "Group list \<Rightarrow> bool" where
  "any_errors groups \<longleftrightarrow> (\<exists>g \<in> set groups. \<exists>r \<in> set (g_Runs g). \<exists>(c, n) \<in> set (Errors r). n > 0)"

definition renderErrorBreakdown :: "Group list \<Rightarrow> string" where
  "renderErrorBreakdown groups =
     (if \<not> any_errors groups then ''''
      else ''**Error breakdown (total across runs):**'' @ nl @ nl
        @ row [''Library'', ''rate_limit'', ''transient'', ''permanent'', ''unclassified''] @ rule_row 5
        @ concat (map (\<lambda>g. row [code_span (g_Library g), dec_of_int (class_total ''rate_limit'' g),
             dec_of_int (class_total ''transient'' g), dec_of_int (class_total ''permanent'' g),
             dec_of_int (class_total ''unclassified'' g)]) groups)
        @ nl)"

definition run_row :: "Group \<Rightarrow> nat \<times> RunSummary \<Rightarrow> string" where
  "run_row g ir = (case ir of (i, r) \<Rightarrow>
     row [code_span (g_Library g), dec_of_nat (i + 1), dec_of_int (rs_Enqueued r), dec_of_int (rs_Completed r),
          dec_of_int (rs_Failed r), fmt_fixed 1 (ThroughputCPS r), fmt_fixed 1 (ls_P50 (PickupLatency r)),
          fmt_fixed 1 (ls_P95 (PickupLatency r)), fmt_fixed 1 (ls_P99 (PickupLatency r))])"

definition renderScenarioRunsTable :: "Group list \<Rightarrow> string" where
  "renderScenarioRunsTable groups =
     (if \<not> (\<exists>g \<in> set groups. length (g_Runs g) > 1) then ''''
      else ''<details><summary>Per-run breakdown</summary>'' @ nl @ nl
        @ row [''Library'', ''Run'', ''Enqueued'', ''Completed'', ''Failed'', ''Throughput'', ''Pickup p50'', ''Pickup p95'', ''Pickup p99'']
        @ rule_row 9
        @ concat (map (\<lambda>g. concat (map (run_row g) (enumerate 0 (g_Runs g)))) groups)
        @ nl @ ''</details>'' @ nl @ nl)"

text \<open>\<open>extremes\<close>: the two loops that look for the largest and the smallest count, over a map in visiting order.\<close>

fun max_enq :: "(string \<times> TenantStats) list \<Rightarrow> int \<Rightarrow> int" where
  "max_enq [] m = m"
| "max_enq ((t, ts) # xs) m = max_enq xs (if tn_Enqueued ts > m then tn_Enqueued ts else m)"

fun min_enq :: "(string \<times> TenantStats) list \<Rightarrow> int \<Rightarrow> int" where
  "min_enq [] m = m"
| "min_enq ((t, ts) # xs) m = min_enq xs (if tn_Enqueued ts < m then tn_Enqueued ts else m)"

definition run_has_skew :: "RunSummary \<Rightarrow> bool" where
  "run_has_skew r =
     (if length (PerTenant r) < 2 then False
      else
        let maxEnq = max_enq (PerTenant r) 0; minEnq = min_enq (PerTenant r) (2 ^ 63 - 1)
        in minEnq > 0 \<and> f64 (f64 (of_int maxEnq) / f64 (of_int minEnq)) > 2)"

fun pickExtremes_loop :: "(string \<times> TenantStats) list \<Rightarrow> int \<times> string \<Rightarrow> int \<times> string \<Rightarrow> string \<times> string" where
  "pickExtremes_loop [] (maxCnt, noisy) (minCnt, quiet) = (noisy, quiet)"
| "pickExtremes_loop ((i, ts) # xs) (maxCnt, noisy) (minCnt, quiet) =
     pickExtremes_loop xs
       (if tn_Enqueued ts > maxCnt then (tn_Enqueued ts, i) else (maxCnt, noisy))
       (if tn_Enqueued ts < minCnt then (tn_Enqueued ts, i) else (minCnt, quiet))"

definition pickExtremes :: "(string \<times> TenantStats) list \<Rightarrow> string \<times> string" where
  "pickExtremes per = pickExtremes_loop per (- 1, '''') (2 ^ 63 - 1, '''')"

definition tenant_of :: "RunSummary \<Rightarrow> string \<Rightarrow> TenantStats" where
  "tenant_of r t = (case map_of (PerTenant r) t of None \<Rightarrow> zero_TenantStats | Some ts \<Rightarrow> ts)"

definition tenant_row :: "RunSummary \<Rightarrow> string" where
  "tenant_row r =
     (case pickExtremes (PerTenant r) of (noisyID, quietID) \<Rightarrow>
        let noisy = tenant_of r noisyID; quiet = tenant_of r quietID;
            np = ls_P95 (tn_PickupLatency noisy); qp = ls_P95 (tn_PickupLatency quiet);
            ratio = (if qp > 0 then f64 (np / qp) else 0)
        in row [code_span (Library r), dec_of_int (tn_Enqueued noisy), dec_of_int (tn_Enqueued quiet),
             fmt_fixed 1 np, fmt_fixed 1 qp, fmt_fixed 2 ratio])"

definition renderPerTenantSection :: "RunSummary list \<Rightarrow> string" where
  "renderPerTenantSection runs =
     (if \<not> (\<exists>r \<in> set runs. run_has_skew r) then ''''
      else ''**Per-tenant fairness:**'' @ nl @ nl
        @ row [''Library'', ''Noisiest enqueued'', ''Quietest enqueued'', ''Noisy pickup p95'', ''Quiet pickup p95'',
               ''Fairness ratio (noisy / quiet p95)'']
        @ rule_row 6
        @ concat (map tenant_row runs)
        @ nl @ ''_A fairness ratio near 1.0 means the noisy tenant doesn'' @ [CHR 0x27] @ ''t starve the quiet ones. Ratios >2 mean meaningful starvation._'' @ nl @ nl)"

text \<open>The scenarios in the order of their first group, then sorted.\<close>

definition scenario_order :: "Group list \<Rightarrow> string list" where
  "scenario_order groups = sort (fold (\<lambda>g order. if g_Scenario g \<in> set order then order else order @ [g_Scenario g]) groups [])"

definition scenario_section :: "Group list \<Rightarrow> string \<Rightarrow> string" where
  "scenario_section groups scn =
     (let scnGroups = filter (\<lambda>g. g_Scenario g = scn) groups
      in ''## Scenario: '' @ code_span scn @ nl @ nl
         @ renderScenarioGroupTable scnGroups @ renderErrorBreakdown scnGroups @ renderScenarioRunsTable scnGroups
         @ renderPerTenantSection (flattenRuns scnGroups) @ nl)"

definition methodology :: string where
  "methodology =
     ''## Methodology'' @ nl @ nl
     @ ''Durations in milliseconds. **Values are medians across runs** where multiple runs were collected; single-run cells show the one measurement. Min/max columns show the spread across runs '' @ em_dash @ '' a tight spread means the measurement is stable; a wide spread means the measurement itself is noisy and should be interpreted carefully.'' @ nl @ nl
     @ ''Pickup latency is the time from when a job is accepted into the queue (after `Enqueue()` returns) to when a worker begins executing it. Work duration is the synthetic `Simulate()` wall-clock inside the worker. E2E is the total from enqueue to completion. The first ''
     @ ''2s'' @ '' of each run is excluded from latency statistics as warmup.'' @ nl @ nl
     @ ''See `docs/METHODOLOGY.md` for the full model.'' @ nl @ nl"

definition RenderMarkdown :: "RunSummary list \<Rightarrow> string" where
  "RenderMarkdown runs =
     ''# Queue Benchmark Results'' @ nl @ nl
     @ (if length runs = 0 then ''_No runs found._'' @ nl
        else
          let groups = GroupRuns runs
          in ''Runs analyzed: '' @ dec_of_nat (length runs) @ '' (across '' @ dec_of_nat (length groups)
             @ '' scenario '' @ times_sign @ '' library pairs)'' @ nl @ nl
             @ concat (map (scenario_section groups) (scenario_order groups)) @ methodology)"

definition is_results :: "dir_entry \<Rightarrow> bool" where
  "is_results e \<longleftrightarrow> \<not> (de_IsDir e \<or> \<not> HasSuffix (de_Name e) ''.jsonl'')"

text \<open>What the map of groups holds.\<close>

definition groups_of :: "RunSummary list \<Rightarrow> (string \<times> Group) list \<Rightarrow> bool" where
  "groups_of runs al \<longleftrightarrow> distinct (map fst al) \<and> fst ` set al = group_key ` set runs
     \<and> (\<forall>(k, g) \<in> set al. g_Runs g = filter (\<lambda>r. group_key r = k) runs \<and> k = g_Library g @ ''|'' @ g_Scenario g
          \<and> g = (new_Group (g_Library g) (g_Scenario g))\<lparr>g_Runs := g_Runs g\<rparr>)"

definition sample_runs :: "RunSummary list" where
  "sample_runs = [zero_RunSummary\<lparr>Library := ''river'', Scenario := ''burst'', rs_Enqueued := 5\<rparr>,
     zero_RunSummary\<lparr>Library := ''platlib'', Scenario := ''burst'', rs_Enqueued := 7\<rparr>]"

definition sample_entry :: "string \<Rightarrow> dir_entry" where
  "sample_entry n = \<lparr>de_Name = n, de_IsDir = False, de_Open = Inr (map (\<lambda>(t, k, fs). sample_line t k fs) sample_log, None)\<rparr>"


section \<open>Facts\<close>

subsection \<open>Reading a directory\<close>

lemma analyze_entries_Inr:
  "analyze_entries pt es out = Inr ss \<longleftrightarrow>
     ss = out @ map (\<lambda>e. fst (Analyze pt e)) (filter is_results es) \<and> (\<forall>e \<in> set (filter is_results es). snd (Analyze pt e) = None)"
proof (induction es arbitrary: out)
  case (Cons e es)
  show ?case
  proof (cases "is_results e")
    case True
    obtain s r where a: "Analyze pt e = (s, r)" by fastforce
    have "\<not> (de_IsDir e \<or> \<not> HasSuffix (de_Name e) ''.jsonl'')" using True by (simp add: is_results_def)
    then show ?thesis using True Cons.IH [of "out @ [s]"] a by (cases r) auto
  next
    case False
    then have "de_IsDir e \<or> \<not> HasSuffix (de_Name e) ''.jsonl''" by (simp add: is_results_def)
    then show ?thesis using False Cons.IH [of out] by simp
  qed
qed auto


subsection \<open>Grouping\<close>

lemma total_int64_sum: "total_int64 f rs t = (if rs = [] then t else int64_of (t + sum_list (map f rs)))"
proof -
  have w: "int64_of (int64_of a + b) = int64_of (a + b)" for a b
    unfolding int64_of_def by (simp add: mod_simps algebra_simps)
  have "total_int64 f (rs @ [r]) t = int64_of (t + sum_list (map f (rs @ [r])))" for rs r
  proof (induction rs arbitrary: t)
    case (Cons a rs)
    have "total_int64 f ((a # rs) @ [r]) t = total_int64 f (rs @ [r]) (int64_of (t + f a))" by (simp add: total_int64_def)
    then show ?case using Cons.IH [of "int64_of (t + f a)"] by (simp add: w add.assoc)
  qed (simp add: total_int64_def)
  then show ?thesis by (cases rs rule: rev_cases) (simp_all add: total_int64_def)
qed

lemma new_Group_fields: "g_Library (new_Group l s) = l" "g_Scenario (new_Group l s) = s"
  by (simp_all add: new_Group_def)

lemma Group_update: "g = h\<lparr>g_Runs := g_Runs g\<rparr> \<Longrightarrow> g\<lparr>g_Runs := x\<rparr> = h\<lparr>g_Runs := x\<rparr>" for g h :: Group
proof -
  assume "g = h\<lparr>g_Runs := g_Runs g\<rparr>"
  then have "g\<lparr>g_Runs := x\<rparr> = (h\<lparr>g_Runs := g_Runs g\<rparr>)\<lparr>g_Runs := x\<rparr>" by (rule arg_cong)
  then show ?thesis by simp
qed

lemma groups_of_add:
  assumes g: "groups_of runs al"
  shows "groups_of (runs @ [r]) (add_run r al)"
proof -
  define g0 where "g0 = (case map_of al (group_key r) of None \<Rightarrow> new_Group (Library r) (Scenario r) | Some g \<Rightarrow> g)"
  have al: "distinct (map fst al)" "fst ` set al = group_key ` set runs"
    and each: "\<And>k g. (k, g) \<in> set al \<Longrightarrow> g_Runs g = filter (\<lambda>r. group_key r = k) runs \<and> k = g_Library g @ ''|'' @ g_Scenario g
          \<and> g = (new_Group (g_Library g) (g_Scenario g))\<lparr>g_Runs := g_Runs g\<rparr>"
    using g unfolding groups_of_def by blast+
  have g0: "g_Runs g0 = filter (\<lambda>x. group_key x = group_key r) runs \<and> group_key r = g_Library g0 @ ''|'' @ g_Scenario g0
      \<and> g0 = (new_Group (g_Library g0) (g_Scenario g0))\<lparr>g_Runs := g_Runs g0\<rparr>"
  proof (cases "map_of al (group_key r)")
    case None
    then have "group_key r \<notin> group_key ` set runs" using al(2) by (simp add: map_of_eq_None_iff)
    then have "filter (\<lambda>x. group_key x = group_key r) runs = []" by (auto simp: filter_empty_conv image_iff)
    moreover have "g0 = new_Group (Library r) (Scenario r)" by (simp add: g0_def None)
    ultimately show ?thesis by (simp add: new_Group_def) (simp add: group_key_def)
  next
    case (Some h)
    have "g0 = h" by (simp add: g0_def Some)
    then show ?thesis using each [OF map_of_SomeD [OF Some]] by blast
  qed
  have upd: "add_run r al = AList.update (group_key r) (g0\<lparr>g_Runs := g_Runs g0 @ [r]\<rparr>) al"
    by (simp add: add_run_def g0_def Let_def)
  have mem: "(k, h) \<in> set (add_run r al) \<Longrightarrow> (k, h) \<in> set al \<and> k \<noteq> group_key r \<or> k = group_key r \<and> h = g0\<lparr>g_Runs := g_Runs g0 @ [r]\<rparr>" for k h
    unfolding upd using al(1) by (metis distinct_update map_of_eq_Some_iff update_conv' fun_upd_apply option.inject)
  show ?thesis
    unfolding groups_of_def
  proof (intro conjI ballI)
    show "distinct (map fst (add_run r al))" unfolding upd using al(1) by (rule distinct_update)
    show "fst ` set (add_run r al) = group_key ` set (runs @ [r])"
      unfolding upd by (auto simp: dom_update al(2))
    fix x
    assume "x \<in> set (add_run r al)"
    then show "case x of (k, g) \<Rightarrow> g_Runs g = filter (\<lambda>r. group_key r = k) (runs @ [r]) \<and> k = g_Library g @ ''|'' @ g_Scenario g
          \<and> g = (new_Group (g_Library g) (g_Scenario g))\<lparr>g_Runs := g_Runs g\<rparr>"
    proof -
      obtain k h where Pair: "x = (k, h)" by fastforce
      with \<open>x \<in> set (add_run r al)\<close> mem consider "(k, h) \<in> set al" "k \<noteq> group_key r" | "k = group_key r" "h = g0\<lparr>g_Runs := g_Runs g0 @ [r]\<rparr>"
        by blast
      then show ?thesis
      proof cases
        case 1
        have f: "filter (\<lambda>r. group_key r = k) (runs @ [r]) = filter (\<lambda>r. group_key r = k) runs" using 1(2) by simp
        show ?thesis unfolding Pair prod.case f by (rule each [OF 1(1)])
      next
        case 2
        then show ?thesis
          using g0 Group_update [OF conjunct2 [OF conjunct2 [OF g0]], of "g_Runs g0 @ [r]"] unfolding Pair 2 by (simp add: new_Group_fields)
      qed
    qed
  qed
qed

lemma groups_of_fold: "groups_of runs (fold add_run runs [])"
  by (induction runs rule: rev_induct) (simp add: groups_of_def, simp add: groups_of_add)

lemma populate_fields [simp]:
  "g_Runs (populateGroupStats g) = g_Runs g" "g_Library (populateGroupStats g) = g_Library g" "g_Scenario (populateGroupStats g) = g_Scenario g"
  "group_order (populateGroupStats g) = group_order g"
  by (simp_all add: populateGroupStats_def Let_def group_order_def)

lemma distinct_map_group_order:
  assumes "groups_of runs al"
  shows "distinct (map (\<lambda>kg. group_order (snd kg)) al)"
proof -
  have "inj_on (\<lambda>kg. group_order (snd kg)) (set al)"
  proof (rule inj_onI)
    fix x y
    assume xy: "x \<in> set al" "y \<in> set al" "(\<lambda>kg. group_order (snd kg)) x = (\<lambda>kg. group_order (snd kg)) y"
    have key: "fst z = g_Library (snd z) @ ''|'' @ g_Scenario (snd z)" if "z \<in> set al" for z
      using assms that unfolding groups_of_def by fastforce
    have "fst x = fst y"
      using key [OF xy(1)] key [OF xy(2)] xy(3) by (simp add: case_prod_beta group_order_def)
    moreover have "inj_on fst (set al)" using assms by (simp add: groups_of_def distinct_map)
    ultimately show "x = y" using xy(1,2) by (simp add: inj_on_def)
  qed
  then show ?thesis using assms by (simp add: distinct_map groups_of_def)
qed

lemma distinct_filter_eq_single: "distinct xs \<Longrightarrow> k \<in> set xs \<Longrightarrow> filter (\<lambda>y. y = k) xs = [k]"
  by (induction xs) (auto simp: filter_empty_conv)

text \<open>A stable sort by pairwise different keys does not depend on the order of its input.\<close>

lemma sort_key_unique:
  assumes "mset xs = mset ys" and "distinct (map f xs)"
  shows "sort_key f xs = sort_key f ys"
proof (rule sym, rule properties_for_sort_key)
  show "mset (sort_key f xs) = mset ys" using assms(1) by simp
  show "sorted (map f (sort_key f xs))" by simp
  fix k
  assume "k \<in> set (sort_key f xs)"
  have d: "inj_on f (set xs)" "distinct xs" using assms(2) by (simp_all add: distinct_map)
  have "filter (\<lambda>y. f k = f y) zs = [k]" if "mset zs = mset xs" "k \<in> set xs" for zs
  proof -
    have "distinct zs" "set zs = set xs" using that d(2) by (metis mset_eq_imp_distinct_iff, metis mset_eq_setD)
    moreover have "filter (\<lambda>y. f k = f y) zs = filter (\<lambda>y. y = k) zs"
      using calculation d(1) that(2) by (intro filter_cong) (auto dest: inj_onD)
    ultimately show ?thesis using that(2) by (simp add: distinct_filter_eq_single)
  qed
  then show "filter (\<lambda>y. f k = f y) (sort_key f xs) = filter (\<lambda>y. f k = f y) ys"
    using assms(1) \<open>k \<in> set (sort_key f xs)\<close> by simp
qed

lemma mset_visit: "mset (map (\<lambda>kg. populateGroupStats (snd kg)) al) = mset (map (\<lambda>kg. populateGroupStats (snd kg)) al')" if "mset al = mset al'"
  using that by simp

lemma mset_concat_cong: "mset xs = mset ys \<Longrightarrow> mset (concat (map f xs)) = mset (concat (map f ys))"
proof -
  assume eq: "mset xs = mset ys"
  have "mset (concat (map f zs)) = sum_mset (image_mset (\<lambda>z. mset (f z)) (mset zs))" for zs
    by (induction zs) simp_all
  then show ?thesis by (simp add: eq)
qed

lemma mset_concat_runs:
  assumes "distinct ks" and "group_key ` set runs \<subseteq> set ks"
  shows "mset (concat (map (\<lambda>k. filter (\<lambda>r. group_key r = k) runs) ks)) = mset runs"
  using assms(2)
proof (induction runs)
  case Nil
  then show ?case by (induction ks) auto
next
  case (Cons r rs)
  have "mset (concat (map (\<lambda>k. filter (\<lambda>x. group_key x = k) (r # rs)) ks'))
      = mset (concat (map (\<lambda>k. filter (\<lambda>x. group_key x = k) rs) ks')) + (if group_key r \<in> set ks' then {#r#} else {#})"
    if "distinct ks'" for ks'
    using that by (induction ks') auto
  then show ?case using Cons assms(1) by simp
qed


text \<open>C22: The order in which Go visits the map of groups, which is random, does not show in the result: any visiting order gives
  the same list of groups.\<close>

theorem GroupRuns_deterministic:
  assumes "mset byKey = mset (fold add_run runs [])"
  shows "GroupRuns_visiting byKey = GroupRuns runs"
proof -
  have "distinct (map group_order (map (\<lambda>kg. populateGroupStats (snd kg)) (fold add_run runs [])))"
    using distinct_map_group_order [OF groups_of_fold [of runs]] by (simp add: comp_def)
  then show ?thesis
    unfolding GroupRuns_def GroupRuns_visiting_def using mset_visit [OF assms] by (intro sort_key_unique [symmetric]) simp_all
qed

text \<open>The result of one of the two loops: the tag it started with if nothing beats the start value, else an entry that is not beaten.\<close>

lemma pickExtremes_loop_noisy:
  "pickExtremes_loop xs (mx, n0) m = (noisy, quiet) \<Longrightarrow>
   noisy = n0 \<and> (\<forall>x \<in> set xs. tn_Enqueued (snd x) \<le> mx)
   \<or> (\<exists>y \<in> set xs. noisy = fst y \<and> tn_Enqueued (snd y) > mx \<and> (\<forall>x \<in> set xs. tn_Enqueued (snd x) \<le> tn_Enqueued (snd y)))"
proof (induction xs arbitrary: mx n0 m)
  case Nil
  then show ?case by (cases m) simp
next
  case (Cons x xs)
  obtain i ts mn q0 where x: "x = (i, ts)" "m = (mn, q0)" by (metis surj_pair)
  show ?case
  proof (cases "tn_Enqueued ts > mx")
    case True
    then have "pickExtremes_loop xs (tn_Enqueued ts, i) (if tn_Enqueued ts < mn then (tn_Enqueued ts, i) else (mn, q0)) = (noisy, quiet)"
      using Cons.prems x by simp
    from Cons.IH [OF this] show ?thesis using True x by auto
  next
    case False
    then have "pickExtremes_loop xs (mx, n0) (if tn_Enqueued ts < mn then (tn_Enqueued ts, i) else (mn, q0)) = (noisy, quiet)"
      using Cons.prems x by simp
    from Cons.IH [OF this] show ?thesis using False x by auto
  qed
qed

lemma pickExtremes_loop_quiet:
  "pickExtremes_loop xs m (mn, q0) = (noisy, quiet) \<Longrightarrow>
   quiet = q0 \<and> (\<forall>x \<in> set xs. tn_Enqueued (snd x) \<ge> mn)
   \<or> (\<exists>y \<in> set xs. quiet = fst y \<and> tn_Enqueued (snd y) < mn \<and> (\<forall>x \<in> set xs. tn_Enqueued (snd x) \<ge> tn_Enqueued (snd y)))"
proof (induction xs arbitrary: mn q0 m)
  case Nil
  then show ?case by (cases m) simp
next
  case (Cons x xs)
  obtain i ts mx n0 where x: "x = (i, ts)" "m = (mx, n0)" by (metis surj_pair)
  show ?case
  proof (cases "tn_Enqueued ts < mn")
    case True
    then have "pickExtremes_loop xs (if tn_Enqueued ts > mx then (tn_Enqueued ts, i) else (mx, n0)) (tn_Enqueued ts, i) = (noisy, quiet)"
      using Cons.prems x by simp
    from Cons.IH [OF this] show ?thesis using True x by auto
  next
    case False
    then have "pickExtremes_loop xs (if tn_Enqueued ts > mx then (tn_Enqueued ts, i) else (mx, n0)) (mn, q0) = (noisy, quiet)"
      using Cons.prems x by simp
    from Cons.IH [OF this] show ?thesis using False x by auto
  qed
qed

text \<open>The fairness table compares a tenant with the most enqueued jobs and one with the fewest: \<open>pickExtremes\<close> returns tenants of the
  run whose counts are the maximum and the minimum.\<close>

theorem pickExtremes_extreme:
  assumes "per \<noteq> []" and "\<forall>x \<in> set per. 0 \<le> tn_Enqueued (snd x) \<and> tn_Enqueued (snd x) < 2 ^ 63 - 1"
    and "pickExtremes per = (noisy, quiet)"
  shows "(\<exists>ts. (noisy, ts) \<in> set per \<and> tn_Enqueued ts = Max ((\<lambda>x. tn_Enqueued (snd x)) ` set per))
    \<and> (\<exists>ts. (quiet, ts) \<in> set per \<and> tn_Enqueued ts = Min ((\<lambda>x. tn_Enqueued (snd x)) ` set per))"
proof -
  note p = assms(3) [unfolded pickExtremes_def]
  obtain z where z: "z \<in> set per" using assms(1) by (cases per) auto
  have zz: "0 \<le> tn_Enqueued (snd z)" "tn_Enqueued (snd z) < 2 ^ 63 - 1" using assms(2) z by blast+
  have "\<not> (\<forall>x \<in> set per. tn_Enqueued (snd x) \<le> - 1)"
  proof
    assume "\<forall>x \<in> set per. tn_Enqueued (snd x) \<le> - 1"
    then have "tn_Enqueued (snd z) \<le> - 1" using z by blast
    with zz(1) show False by simp
  qed
  with pickExtremes_loop_noisy [OF p] obtain a where a: "a \<in> set per" "noisy = fst a" "\<forall>x \<in> set per. tn_Enqueued (snd x) \<le> tn_Enqueued (snd a)"
    by blast
  have "\<not> (\<forall>x \<in> set per. tn_Enqueued (snd x) \<ge> 2 ^ 63 - 1)"
  proof
    assume "\<forall>x \<in> set per. tn_Enqueued (snd x) \<ge> 2 ^ 63 - 1"
    then have "tn_Enqueued (snd z) \<ge> 2 ^ 63 - 1" using z by blast
    with zz(2) show False by simp
  qed
  with pickExtremes_loop_quiet [OF p] obtain b where b: "b \<in> set per" "quiet = fst b" "\<forall>x \<in> set per. tn_Enqueued (snd x) \<ge> tn_Enqueued (snd b)"
    by blast
  have "Max ((\<lambda>x. tn_Enqueued (snd x)) ` set per) = tn_Enqueued (snd a)"
    by (rule Max_eqI) (use a in auto)
  moreover have "Min ((\<lambda>x. tn_Enqueued (snd x)) ` set per) = tn_Enqueued (snd b)"
    by (rule Min_eqI) (use b in auto)
  ultimately show ?thesis using a(1,2) b(1,2) by (metis prod.collapse)
qed

theorem pickExtremes_extreme_witness:
  "\<exists>ts. (fst (pickExtremes [(''a'', zero_TenantStats), (''b'', zero_TenantStats\<lparr>tn_Enqueued := 3\<rparr>)]), ts)
     \<in> set [(''a'', zero_TenantStats), (''b'', zero_TenantStats\<lparr>tn_Enqueued := 3\<rparr>)] \<and> tn_Enqueued ts = 3"
  using pickExtremes_extreme [of "[(''a'', zero_TenantStats), (''b'', zero_TenantStats\<lparr>tn_Enqueued := 3\<rparr>)]" "''b''" "''a''"]
  by (simp add: zero_TenantStats_def pickExtremes_def)


theorem GroupRuns_deterministic_witness:
  "GroupRuns_visiting (rev (fold add_run sample_runs [])) = GroupRuns sample_runs"
  by (rule GroupRuns_deterministic) simp


lemma scenario_order_fold:
  "distinct order \<Longrightarrow> distinct (fold (\<lambda>g order. if g_Scenario g \<in> set order then order else order @ [g_Scenario g]) gs order)
   \<and> set (fold (\<lambda>g order. if g_Scenario g \<in> set order then order else order @ [g_Scenario g]) gs order) = set order \<union> g_Scenario ` set gs"
  by (induction gs arbitrary: order) auto

text \<open>C0: The report has one section per scenario, in sorted order, each once.\<close>

theorem scenario_order_sorted: "scenario_order groups = sorted_list_of_set (g_Scenario ` set groups)"
  using scenario_order_fold [of "[]" groups]
  by (simp add: scenario_order_def sorted_list_of_set_sort_remdups distinct_remdups_id [symmetric] sorted_distinct_set_unique)

end
