(* ===== verification/Metrics_Recorder.thy ===== *)
theory Metrics_Recorder
  imports Analyze_Report
begin

text \<open>
  The results file (\<^verbatim>\<open>internal/metrics/recorder.go\<close>): events, their JSON form, and the recorder that appends one
  line per event. A file is the list of the documents on its lines. What the operating system and
  the clock answer is an argument: the errors of \<^verbatim>\<open>MkdirAll\<close> and \<^verbatim>\<open>OpenFile\<close>, the error of a write, the time,
  and \<open>fmt_time\<close>, the RFC 3339 writer of \<^verbatim>\<open>time.Time\<close>. \<^verbatim>\<open>Record\<close> and \<^verbatim>\<open>Close\<close> run under the recorder's mutex, so
  each is one step.
\<close>

section \<open>Events\<close>

definition KindRunStart :: string where "KindRunStart = ''run_start''"
definition KindRunEnd :: string where "KindRunEnd = ''run_end''"
definition KindJobEnqueued :: string where "KindJobEnqueued = ''job_enqueued''"
definition KindJobStarted :: string where "KindJobStarted = ''job_started''"
definition KindJobCompleted :: string where "KindJobCompleted = ''job_completed''"
definition KindJobFailed :: string where "KindJobFailed = ''job_failed''"
definition KindJobRetried :: string where "KindJobRetried = ''job_retried''"
definition KindJobDiscarded :: string where "KindJobDiscarded = ''job_discarded''"
definition KindQueueSnapshot :: string where "KindQueueSnapshot = ''queue_snapshot''"
definition KindResourceSample :: string where "KindResourceSample = ''resource_sample''"

record Event =
  RunID :: string
  Timestamp :: int
  Kind :: string
  Fields :: "(string \<times> json) list"

text \<open>
  \<^verbatim>\<open>encoding/json\<close> writes the fields of a struct in order, leaves out an empty \<^verbatim>\<open>omitempty\<close> map, and writes the
  keys of a map in sorted order.
\<close>

definition marshal_Event :: "(int \<Rightarrow> string) \<Rightarrow> Event \<Rightarrow> json" where
  "marshal_Event fmt_time e =
     JObj ([(''run_id'', JStr (RunID e)), (''timestamp'', JStr (fmt_time (Timestamp e))), (''kind'', JStr (Kind e))]
       @ (if Fields e = [] then [] else [(''fields'', JObj (sort_key fst (Fields e)))]))"

section \<open>Paths\<close>

text \<open>\<^verbatim>\<open>filepath.Join\<close> on two elements, the second not empty: joined with a slash and cleaned.\<close>

fun split_slash :: "string \<Rightarrow> string \<Rightarrow> string list" where
  "split_slash acc [] = [rev acc]"
| "split_slash acc (c # cs) = (if c = CHR ''/'' then rev acc # split_slash [] cs else split_slash (c # acc) cs)"

definition clean_step :: "bool \<Rightarrow> string \<Rightarrow> string list \<Rightarrow> string list" where
  "clean_step rooted c stack =
     (if c = '''' \<or> c = ''.'' then stack
      else if c = ''..'' then
        (case stack of
           [] \<Rightarrow> if rooted then [] else [''..'']
         | s # ss \<Rightarrow> if s = ''..'' then ''..'' # stack else ss)
      else c # stack)"

fun join_slash :: "string list \<Rightarrow> string" where
  "join_slash [] = ''''"
| "join_slash [c] = c"
| "join_slash (c # cs) = c @ ''/'' @ join_slash cs"

definition Clean :: "string \<Rightarrow> string" where
  "Clean p =
     (let rooted = (p \<noteq> [] \<and> hd p = CHR ''/'');
          out = join_slash (rev (fold (clean_step rooted) (split_slash [] p) []))
      in if rooted then CHR ''/'' # out else if out = '''' then ''.'' else out)"

definition Join2 :: "string \<Rightarrow> string \<Rightarrow> string" where
  "Join2 a b = (if a = '''' then Clean b else Clean (a @ ''/'' @ b))"

section \<open>The recorder\<close>

record Recorder =
  runID :: string
  rec_path :: string
  rec_lines :: "json list"
  rec_open :: bool

text \<open>\<open>existing\<close>: the lines a file of that path already holds; it is opened for appending.\<close>

definition NewRecorder ::
    "goerr option \<Rightarrow> (string \<Rightarrow> goerr option) \<Rightarrow> (string \<Rightarrow> json list) \<Rightarrow> string \<Rightarrow> string \<Rightarrow> goerr + Recorder" where
  "NewRecorder mkdir_err open_err existing dir rid =
     (case mkdir_err of
        Some e \<Rightarrow> Inl (Errorf ''mkdir results dir: '' e)
      | None \<Rightarrow>
          let path = Join2 dir (rid @ ''.jsonl'') in
          (case open_err path of
             Some e \<Rightarrow> Inl (Errorf ''open results file: '' e)
           | None \<Rightarrow> Inr \<lparr>runID = rid, rec_path = path, rec_lines = existing path, rec_open = True\<rparr>))"

definition Record ::
    "(int \<Rightarrow> string) \<Rightarrow> goerr option \<Rightarrow> int \<Rightarrow> string \<Rightarrow> (string \<times> json) list \<Rightarrow> Recorder \<Rightarrow> goerr option \<times> Recorder" where
  "Record fmt_time write_err now kind fs r =
     (if \<not> rec_open r then (Some (External ''file already closed''), r)
      else case write_err of
        Some e \<Rightarrow> (Some e, r)
      | None \<Rightarrow> (None, r\<lparr>rec_lines := rec_lines r @
            [marshal_Event fmt_time \<lparr>RunID = runID r, Timestamp = now, Kind = kind, Fields = fs\<rparr>]\<rparr>))"

definition Close :: "goerr option \<Rightarrow> Recorder \<Rightarrow> goerr option \<times> Recorder" where
  "Close close_err r =
     (if \<not> rec_open r then (Some (External ''file already closed''), r) else (close_err, r\<lparr>rec_open := False\<rparr>))"

text \<open>The event an analyzer reads back.\<close>

definition raw_of :: "Event \<Rightarrow> rawEvent" where
  "raw_of e = \<lparr>ev_RunID = RunID e, ev_Timestamp = Timestamp e, ev_Kind = Kind e, ev_Fields = sort_key fst (Fields e)\<rparr>"


section \<open>Facts\<close>

lemmas kind_defs = KindRunStart_def KindRunEnd_def KindJobEnqueued_def KindJobStarted_def KindJobCompleted_def
  KindJobFailed_def KindJobRetried_def KindJobDiscarded_def KindQueueSnapshot_def KindResourceSample_def

lemma jget_sort:
  assumes "distinct (map fst fs)"
  shows "jget (sort_key fst fs) k = jget fs k"
proof -
  have "map_of (rev fs) = map_of (rev (sort_key fst fs))"
    using assms by (intro map_of_inject_set [THEN iffD2]) (simp_all add: rev_map [symmetric] distinct_map)
  then show ?thesis by (simp add: jget_def)
qed

lemma event_decodes:
  assumes "parse_time (fmt_time (Timestamp e)) = Inr (Timestamp e)" and "distinct (map fst (Fields e))"
  shows "decode_line parse_time (Inr (marshal_Event fmt_time e)) = Inr (raw_of e)"
  using assms
  by (auto simp: decode_line_def marshal_Event_def unmarshal_event_def raw_of_def field_str_def)



end
