(* ===== verification/Workload.thy ===== *)
theory Workload
  imports Queue_Contract Go_Float
begin

unbundle bit_operations_syntax

text \<open>
  The synthetic job stream (\<^verbatim>\<open>internal/workload/workload.go\<close>, \<^verbatim>\<open>internal/workload/scenarios.go\<close>): scenario
  specifications, the generator and its random choices, and the ticks of a run. The random source
  (\<^verbatim>\<open>math/rand/v2\<close>) is a record of its operations over a state \<open>'r\<close>, with their documented ranges as the
  hypothesis \<open>rng_ok\<close>; the tenant pool is what \<^verbatim>\<open>uuid.New\<close> returned.
\<close>

section \<open>Specifications\<close>

record JobClass =
  jc_Kind :: Kind
  Weight :: rat
  WorkMillisMin :: int
  WorkMillisMax :: int
  PayloadBytesMin :: int
  PayloadBytesMax :: int

type_synonym RateCurve = "Duration \<Rightarrow> rat"

record Spec =
  sp_Name :: string
  sp_Duration :: Duration
  Tenants :: int
  TenantSkew :: rat
  EnqueueRate :: int
  sp_RateCurve :: "RateCurve option"
  JobMix :: "JobClass list"
  ErrorInjection :: "(ErrorClass \<times> rat) list"
  Seed :: uint64

definition Burst :: "Duration \<Rightarrow> Duration \<Rightarrow> rat \<Rightarrow> RateCurve" where
  "Burst burstStart burstWindow multiplier t =
     (let end' = int64_of (burstStart + burstWindow) in if t \<ge> burstStart \<and> t < end' then multiplier else 1)"

definition job_class :: "Kind \<Rightarrow> rat \<Rightarrow> int \<Rightarrow> int \<Rightarrow> int \<Rightarrow> int \<Rightarrow> JobClass" where
  "job_class k w wmin wmax bmin bmax = \<lparr>jc_Kind = k, Weight = w, WorkMillisMin = wmin, WorkMillisMax = wmax,
     PayloadBytesMin = bmin, PayloadBytesMax = bmax\<rparr>"

definition defaultMix :: "JobClass list" where
  "defaultMix = [job_class ''entity_update'' 60 5 30 128 512, job_class ''tenant_snapshot'' 20 20 150 256 1024,
     job_class ''entity_enrich'' 15 100 800 256 1024, job_class ''document_process'' 5 1000 5000 1024 4096]"

text \<open>The fields most scenarios leave at their zero value.\<close>

definition base_spec :: "string \<Rightarrow> int \<Rightarrow> int \<Rightarrow> int \<Rightarrow> uint64 \<Rightarrow> Spec" where
  "base_spec name secs tenants rate seed = \<lparr>sp_Name = name, sp_Duration = secs * Second, Tenants = tenants, TenantSkew = 0,
     EnqueueRate = rate, sp_RateCurve = None, JobMix = defaultMix, ErrorInjection = [], Seed = seed\<rparr>"

definition SpecFor :: "string \<Rightarrow> goerr + Spec" where
  "SpecFor name =
     (if name = ''steady'' \<or> name = ''steady_over'' then Inr (base_spec name 10 5 50 1)
      else if name = ''steady_under'' then Inr (base_spec name 10 5 30 10)
      else if name = ''steady_balanced'' then Inr (base_spec name 10 5 80 11)
      else if name = ''burst'' then Inr ((base_spec name 15 5 50 2)\<lparr>sp_RateCurve := Some (Burst (5 * Second) (5 * Second) 10)\<rparr>)
      else if name = ''noisy_neighbor'' then Inr ((base_spec name 10 10 50 3)\<lparr>TenantSkew := f64 (5 / 10)\<rparr>)
      else if name = ''rate_limit_pressure''
      then Inr ((base_spec name 10 5 30 4)\<lparr>ErrorInjection := [(ErrorRateLimit, f64 (3 / 10))]\<rparr>)
      else if name = ''noisy_neighbor_saturated'' then Inr ((base_spec name 10 10 100 12)\<lparr>TenantSkew := f64 (9 / 10)\<rparr>)
      else if name = ''high_scale'' then Inr (base_spec name 15 10 300 13)
      else if name = ''notify_latency''
      then Inr ((base_spec name 10 1 20 5)\<lparr>JobMix := [job_class ''entity_update'' 1 0 0 0 0]\<rparr>)
      else Inl (ErrorQ ''unknown scenario '' name ''''))"

definition AllScenarios :: "string list" where
  "AllScenarios = [''steady_under'', ''steady_balanced'', ''steady_over'', ''burst'', ''noisy_neighbor'',
     ''noisy_neighbor_saturated'', ''rate_limit_pressure'', ''notify_latency'', ''high_scale'']"

section \<open>The generator\<close>

record 'r rng =
  Float64 :: "'r \<Rightarrow> rat \<times> 'r"
  IntN :: "int \<Rightarrow> 'r \<Rightarrow> int \<times> 'r"
  Int64N :: "int \<Rightarrow> 'r \<Rightarrow> int \<times> 'r"

record Generator =
  spec :: Spec
  tenants :: "UUID list"
  totalWeight :: rat
  errClasses :: "ErrorClass list"

text \<open>\<open>NewGenerator\<close> returns the generator and the state of its random source, seeded from the specification.\<close>

definition NewGenerator :: "(uint64 \<Rightarrow> uint64 \<Rightarrow> 'r) \<Rightarrow> Spec \<Rightarrow> UUID list \<Rightarrow> Generator \<times> 'r" where
  "NewGenerator newPCG s pool =
     (\<lparr>spec = s, tenants = pool, totalWeight = foldl (\<lambda>t c. f64 (t + Weight c)) 0 (JobMix s),
       errClasses = [ErrorRateLimit, ErrorTransient, ErrorPermanent]\<rparr>,
      newPCG (Seed s) (Seed s XOR 0xdeadbeef))"

definition Tenants_pool :: "Generator \<Rightarrow> UUID list" where
  "Tenants_pool g = tenants g"

definition pickTenant :: "'r rng \<Rightarrow> Generator \<Rightarrow> 'r \<Rightarrow> UUID \<times> 'r" where
  "pickTenant rg g r =
     (if length (tenants g) = 0 then (0, r)
      else
        let uniform = (\<lambda>r.
              let startIdx = (if TenantSkew (spec g) > 0 \<and> length (tenants g) > 1 then 1 else 0)
              in if startIdx \<ge> length (tenants g) then (tenants g ! 0, r)
                 else case IntN rg (int (length (tenants g)) - int startIdx) r of
                        (i, r') \<Rightarrow> (tenants g ! (startIdx + nat i), r'))
        in if TenantSkew (spec g) > 0 then
             (case Float64 rg r of (x, r') \<Rightarrow> if x < TenantSkew (spec g) then (tenants g ! 0, r') else uniform r')
           else uniform r)"

fun pick_loop :: "rat \<Rightarrow> rat \<Rightarrow> JobClass list \<Rightarrow> JobClass option" where
  "pick_loop x acc [] = None"
| "pick_loop x acc (c # cs) = (let acc' = f64 (acc + Weight c) in if x < acc' then Some c else pick_loop x acc' cs)"

definition zero_JobClass :: JobClass where
  "zero_JobClass = job_class '''' 0 0 0 0 0"

definition pickKind :: "'r rng \<Rightarrow> Generator \<Rightarrow> 'r \<Rightarrow> JobClass \<times> 'r" where
  "pickKind rg g r =
     (let mix = JobMix (spec g) in
      if length mix = 0 then (zero_JobClass, r)
      else if totalWeight g \<le> 0 then (mix ! 0, r)
      else case Float64 rg r of (x, r') \<Rightarrow>
             (case pick_loop (f64 (x * totalWeight g)) 0 mix of
                Some c \<Rightarrow> (c, r')
              | None \<Rightarrow> (mix ! (length mix - 1), r')))"

text \<open>\<open>bytes\<close>: \<open>n\<close> random bytes, drawn one by one.\<close>

fun random_bytes :: "'r rng \<Rightarrow> nat \<Rightarrow> 'r \<Rightarrow> uint8 list \<times> 'r" where
  "random_bytes rg 0 r = ([], r)"
| "random_bytes rg (Suc n) r =
     (case IntN rg 256 r of (b, r') \<Rightarrow> (case random_bytes rg n r' of (bs, r'') \<Rightarrow> (of_int b # bs, r'')))"

fun inject_error :: "'r rng \<Rightarrow> (ErrorClass \<times> rat) list \<Rightarrow> ErrorClass list \<Rightarrow> 'r \<Rightarrow> string \<times> 'r" where
  "inject_error rg probs [] r = ('''', r)"
| "inject_error rg probs (cls # cs) r =
     (let p = (case map_of probs cls of None \<Rightarrow> 0 | Some p \<Rightarrow> p) in
      if p \<le> 0 then inject_error rg probs cs r
      else case Float64 rg r of (x, r') \<Rightarrow> if x < p then (cls, r') else inject_error rg probs cs r')"

definition draw_range :: "(int \<Rightarrow> 'r \<Rightarrow> int \<times> 'r) \<Rightarrow> int \<Rightarrow> int \<Rightarrow> 'r \<Rightarrow> int \<times> 'r" where
  "draw_range draw lo hi r =
     (if hi > lo then case draw (int64_of (hi - lo + 1)) r of (x, r') \<Rightarrow> (int64_of (lo + x), r')
      else (lo, r))"

definition buildPayload :: "'r rng \<Rightarrow> Generator \<Rightarrow> JobClass \<Rightarrow> 'r \<Rightarrow> JobPayload \<times> 'r" where
  "buildPayload rg g c r =
     (case draw_range (Int64N rg) (WorkMillisMin c) (WorkMillisMax c) r of (workMs, r1) \<Rightarrow>
      case draw_range (IntN rg) (PayloadBytesMin c) (PayloadBytesMax c) r1 of (bytesLen, r2) \<Rightarrow>
      case (if bytesLen > 0 then case random_bytes rg (nat bytesLen) r2 of (bs, r3) \<Rightarrow> (Some bs, r3) else (None, r2)) of (bytes, r4) \<Rightarrow>
      case inject_error rg (ErrorInjection (spec g)) (errClasses g) r4 of (f, r5) \<Rightarrow>
        (\<lparr>WorkMillis = workMs, Bytes = bytes, FailWithError = f, pl_Attempt = 0\<rparr>, r5))"

text \<open>The kind and the class of the payload are two separate draws.\<close>

definition nextRequest :: "'r rng \<Rightarrow> Generator \<Rightarrow> 'r \<Rightarrow> EnqueueRequest \<times> 'r" where
  "nextRequest rg g r =
     (case pickTenant rg g r of (t, r1) \<Rightarrow>
      case pickKind rg g r1 of (c, r2) \<Rightarrow>
      case pickKind rg g r2 of (c', r3) \<Rightarrow>
      case buildPayload rg g c' r3 of (p, r4) \<Rightarrow>
        (\<lparr>req_TenantID = t, req_Kind = jc_Kind c, req_Payload = p\<rparr>, r4))"

section \<open>Running\<close>

text \<open>How many jobs a tick at time \<open>t\<close> since the start produces.\<close>

definition tick_count :: "'r rng \<Rightarrow> Generator \<Rightarrow> Duration \<Rightarrow> 'r \<Rightarrow> nat \<times> 'r" where
  "tick_count rg g t r =
     (let mult = (case sp_RateCurve (spec g) of None \<Rightarrow> 1 | Some f \<Rightarrow> f t);
          count = (if mult < 0 then \<lceil>mult\<rceil> else \<lfloor>mult\<rfloor>);
          frac = f64 (mult - of_int count)
      in if frac > 0 then case Float64 rg r of (x, r') \<Rightarrow> (nat (if x < frac then count + 1 else count), r')
         else (nat count, r))"

text \<open>
  What happens to a request offered to the channel: it is taken, the channel is full (only looked at when
  a \<^verbatim>\<open>dropped\<close> callback is given), or the context is done first (only when there is none).
\<close>

datatype send = Taken | Full | Cancelled

fun send_all ::
    "'r rng \<Rightarrow> Generator \<Rightarrow> bool \<Rightarrow> nat \<Rightarrow> send list \<Rightarrow> 'r \<Rightarrow> (EnqueueRequest list \<times> nat \<times> bool) \<times> send list \<times> 'r" where
  "send_all rg g lossy 0 ss r = (([], 0, False), ss, r)"
| "send_all rg g lossy (Suc n) ss r =
     (case nextRequest rg g r of (req, r') \<Rightarrow>
        let s = (case ss of [] \<Rightarrow> Taken | x # _ \<Rightarrow> x); ss' = tl ss in
        if lossy \<and> s = Full then
          (case send_all rg g lossy n ss' r' of ((out, d, stop), z) \<Rightarrow> ((out, Suc d, stop), z))
        else if \<not> lossy \<and> s = Cancelled then (([], 0, True), ss', r')
        else (case send_all rg g lossy n ss' r' of ((out, d, stop), z) \<Rightarrow> ((req # out, d, stop), z)))"

text \<open>The loop of \<open>Run\<close>: each wake-up is a tick at a time since the start, or the end of the context.\<close>

datatype wake = Tick Duration | Done

fun run_loop ::
    "'r rng \<Rightarrow> Generator \<Rightarrow> bool \<Rightarrow> wake list \<Rightarrow> send list \<Rightarrow> 'r \<Rightarrow> EnqueueRequest list \<times> nat" where
  "run_loop rg g lossy [] ss r = ([], 0)"
| "run_loop rg g lossy (Done # ws) ss r = ([], 0)"
| "run_loop rg g lossy (Tick t # ws) ss r =
     (if t \<ge> sp_Duration (spec g) then ([], 0)
      else case tick_count rg g t r of (n, r1) \<Rightarrow>
             (case send_all rg g lossy n ss r1 of ((out, d, stop), ss', r2) \<Rightarrow>
                if stop then (out, d)
                else case run_loop rg g lossy ws ss' r2 of (out', d') \<Rightarrow> (out @ out', d + d')))"

datatype gen_result = Streamed "EnqueueRequest list" nat | TickerPanics

definition baseInterval :: "int \<Rightarrow> Duration" where
  "baseInterval rate = Second div rate"

definition Run_generator :: "'r rng \<Rightarrow> Generator \<Rightarrow> bool \<Rightarrow> wake list \<Rightarrow> send list \<Rightarrow> 'r \<Rightarrow> gen_result" where
  "Run_generator rg g lossy ws ss r =
     (let baseRate = EnqueueRate (spec g) in
      if baseRate \<le> 0 then Streamed [] 0
      else if baseInterval baseRate \<le> 0 then TickerPanics
      else case run_loop rg g lossy ws ss r of (out, d) \<Rightarrow> Streamed out d)"

section \<open>Hypotheses and reference definitions\<close>

text \<open>The documented ranges of the random source.\<close>

definition rng_ok :: "'r rng \<Rightarrow> bool" where
  "rng_ok rg \<longleftrightarrow> (\<forall>r. 0 \<le> fst (Float64 rg r) \<and> fst (Float64 rg r) < 1)
     \<and> (\<forall>n r. 0 < n \<longrightarrow> 0 \<le> fst (IntN rg n r) \<and> fst (IntN rg n r) < n)
     \<and> (\<forall>n r. 0 < n \<longrightarrow> 0 \<le> fst (Int64N rg n r) \<and> fst (Int64N rg n r) < n)"

definition class_ok :: "JobClass \<Rightarrow> bool" where
  "class_ok c \<longleftrightarrow> jc_Kind c \<noteq> '''' \<and> 0 < Weight c \<and> 0 \<le> WorkMillisMin c \<and> WorkMillisMin c \<le> WorkMillisMax c \<and> WorkMillisMax c < 2 ^ 62
     \<and> 0 \<le> PayloadBytesMin c \<and> PayloadBytesMin c \<le> PayloadBytesMax c \<and> PayloadBytesMax c < 2 ^ 62"

definition spec_ok :: "Spec \<Rightarrow> bool" where
  "spec_ok s \<longleftrightarrow> 0 < sp_Duration s \<and> 0 < Tenants s \<and> 0 \<le> TenantSkew s \<and> TenantSkew s \<le> 1 \<and> 0 < EnqueueRate s \<and> EnqueueRate s \<le> Second
     \<and> JobMix s \<noteq> [] \<and> list_all class_ok (JobMix s) \<and> distinct (map jc_Kind (JobMix s))
     \<and> list_all (\<lambda>(c, p). 0 \<le> p \<and> p \<le> 1) (ErrorInjection s)"

definition payload_of_class :: "Spec \<Rightarrow> JobClass \<Rightarrow> JobPayload \<Rightarrow> bool" where
  "payload_of_class s c p \<longleftrightarrow> WorkMillisMin c \<le> WorkMillis p \<and> WorkMillis p \<le> WorkMillisMax c
     \<and> (case Bytes p of None \<Rightarrow> PayloadBytesMin c = 0 | Some bs \<Rightarrow> bs \<noteq> [] \<and> PayloadBytesMin c \<le> int (length bs) \<and> int (length bs) \<le> PayloadBytesMax c)
     \<and> (FailWithError p = '''' \<or> (\<exists>q > 0. map_of (ErrorInjection s) (FailWithError p) = Some q)) \<and> pl_Attempt p = 0"

definition request_ok :: "Generator \<Rightarrow> EnqueueRequest \<Rightarrow> bool" where
  "request_ok g q \<longleftrightarrow> req_TenantID q \<in> set (tenants g) \<and> req_Kind q \<in> jc_Kind ` set (JobMix (spec g))
     \<and> (\<exists>c \<in> set (JobMix (spec g)). payload_of_class (spec g) c (req_Payload q))"

text \<open>The multiplier of a tick, and what a tick produces when it is a whole number.\<close>

definition mult_at :: "Spec \<Rightarrow> Duration \<Rightarrow> rat" where
  "mult_at s t = (case sp_RateCurve s of None \<Rightarrow> 1 | Some f \<Rightarrow> f t)"

definition whole_rate :: "Spec \<Rightarrow> bool" where
  "whole_rate s \<longleftrightarrow> (\<forall>t. \<exists>n :: nat. mult_at s t = of_nat n)"

fun live_ticks :: "Duration \<Rightarrow> wake list \<Rightarrow> Duration list" where
  "live_ticks d [] = []"
| "live_ticks d (Done # ws) = []"
| "live_ticks d (Tick t # ws) = (if t \<ge> d then [] else t # live_ticks d ws)"

definition sample_rng :: "nat rng" where
  "sample_rng = \<lparr>Float64 = (\<lambda>n. (if n = 1 then 0 else 99 / 100, n + 1)), IntN = (\<lambda>k n. (0, n + 1)),
     Int64N = (\<lambda>k n. (0, n + 1))\<rparr>"

definition pool_of :: "nat \<Rightarrow> UUID list" where
  "pool_of n = map of_nat [1..<n + 1]"

definition burst_gen :: Generator where
  "burst_gen = fst (NewGenerator (\<lambda>a b. 0 :: nat)
     ((base_spec ''burst'' 15 5 50 2)\<lparr>sp_RateCurve := Some (Burst (5 * Second) (5 * Second) 10)\<rparr>) (pool_of 5))"

definition noisy_gen :: Generator where
  "noisy_gen = fst (NewGenerator (\<lambda>a b. 0 :: nat) ((base_spec ''noisy_neighbor'' 10 10 50 3)\<lparr>TenantSkew := f64 (5 / 10)\<rparr>) (pool_of 10))"


section \<open>Facts\<close>

lemma rng_ok_Float64: "rng_ok rg \<Longrightarrow> Float64 rg r = (x, r') \<Longrightarrow> 0 \<le> x \<and> x < 1"
  unfolding rng_ok_def by (metis fst_conv)

lemma rng_ok_IntN: "rng_ok rg \<Longrightarrow> 0 < n \<Longrightarrow> IntN rg n r = (x, r') \<Longrightarrow> 0 \<le> x \<and> x < n"
  unfolding rng_ok_def by (metis fst_conv)

lemma rng_ok_Int64N: "rng_ok rg \<Longrightarrow> 0 < n \<Longrightarrow> Int64N rg n r = (x, r') \<Longrightarrow> 0 \<le> x \<and> x < n"
  unfolding rng_ok_def by (metis fst_conv)

lemma pickTenant_in_pool:
  assumes "rng_ok rg" "tenants g \<noteq> []"
  shows "fst (pickTenant rg g r) \<in> set (tenants g)"
proof -
  have first: "tenants g ! 0 \<in> set (tenants g)" using assms(2) by simp
  have pick: "tenants g ! (k + nat i) \<in> set (tenants g)"
    if "IntN rg (int (length (tenants g)) - int k) r' = (i, r'')" "k < length (tenants g)" for k i r' r''
    using rng_ok_IntN [OF assms(1) _ that(1)] that(2) by (intro nth_mem) linarith
  show ?thesis
    using assms(2) first pick [of 0] pick [of 1]
    by (auto simp: pickTenant_def Let_def split: prod.split)
qed

text \<open>with a skew and several distinct tenants, a job goes to the noisy tenant exactly when the drawn number is below \<open>TenantSkew\<close>: the uniform branch never falls back on it.\<close>

theorem pickTenant_skew:
  assumes "rng_ok rg" "distinct (tenants g)" "1 < length (tenants g)" "0 < TenantSkew (spec g)"
  shows "fst (pickTenant rg g r) = tenants g ! 0 \<longleftrightarrow> fst (Float64 rg r) < TenantSkew (spec g)"
proof -
  have other: "tenants g ! Suc (nat i) \<noteq> tenants g ! 0"
    if "IntN rg (int (length (tenants g)) - 1) r' = (i, r'')" for i r' r''
    using rng_ok_IntN [OF assms(1) _ that] assms(2,3) by (subst nth_eq_iff_index_eq) auto
  show ?thesis
    using assms(3,4) other by (auto simp: pickTenant_def Let_def split: prod.split)
qed

lemma pick_loop_mem: "pick_loop x acc cs = Some c \<Longrightarrow> c \<in> set cs"
  by (induction x acc cs rule: pick_loop.induct) (auto simp: Let_def split: if_splits)

lemma pickKind_in_mix: "JobMix (spec g) \<noteq> [] \<Longrightarrow> fst (pickKind rg g r) \<in> set (JobMix (spec g))"
  by (auto simp: pickKind_def Let_def dest: pick_loop_mem split: prod.split option.split)

lemma random_bytes_length: "length (fst (random_bytes rg n r)) = n"
  by (induction rg n r rule: random_bytes.induct) (auto split: prod.split)

lemma inject_error_class:
  "fst (inject_error rg probs cs r) \<noteq> '''' \<Longrightarrow> \<exists>q > 0. map_of probs (fst (inject_error rg probs cs r)) = Some q"
  by (induction rg probs cs r rule: inject_error.induct)
     (auto simp: Let_def split: prod.splits option.splits if_splits)

lemma draw_range_bounds:
  assumes "\<And>n r x r'. 0 < n \<Longrightarrow> draw n r = (x, r') \<Longrightarrow> 0 \<le> x \<and> x < n"
    and "0 \<le> lo" "lo \<le> hi" "hi < 2 ^ 62"
  shows "lo \<le> fst (draw_range draw lo hi r) \<and> fst (draw_range draw lo hi r) \<le> hi"
proof (cases "lo < hi")
  case True
  obtain x r' where x: "draw (hi - lo + 1) r = (x, r')" by fastforce
  then have b: "0 \<le> x" "x < hi - lo + 1" using assms(1) [OF _ x] True by auto
  then have "in_int64 (hi - lo + 1)" "in_int64 (lo + x)" using assms(2-4) by (auto simp: in_int64_def)
  then show ?thesis using True b by (simp add: draw_range_def x)
qed (use assms(3) in \<open>simp add: draw_range_def\<close>)

lemma buildPayload_of_class:
  assumes "rng_ok rg" "class_ok c"
  shows "payload_of_class (spec g) c (fst (buildPayload rg g c r))"
proof -
  obtain w r1 where w: "draw_range (Int64N rg) (WorkMillisMin c) (WorkMillisMax c) r = (w, r1)" by fastforce
  obtain l r2 where l: "draw_range (IntN rg) (PayloadBytesMin c) (PayloadBytesMax c) r1 = (l, r2)" by fastforce
  have W: "WorkMillisMin c \<le> w \<and> w \<le> WorkMillisMax c"
    using draw_range_bounds [of "Int64N rg" "WorkMillisMin c" "WorkMillisMax c" r]
      rng_ok_Int64N [OF assms(1)] assms(2) w by (auto simp: class_ok_def)
  have L: "PayloadBytesMin c \<le> l \<and> l \<le> PayloadBytesMax c"
    using draw_range_bounds [of "IntN rg" "PayloadBytesMin c" "PayloadBytesMax c" r1]
      rng_ok_IntN [OF assms(1)] assms(2) l by (auto simp: class_ok_def)
  obtain bs r3 where b: "random_bytes rg (nat l) r2 = (bs, r3)" by fastforce
  have lb: "length bs = nat l" using random_bytes_length [of rg "nat l" r2] b by simp
  obtain f r5 where f: "inject_error rg (ErrorInjection (spec g)) (errClasses g) (if l > 0 then r3 else r2) = (f, r5)"
    by fastforce
  have F: "f = '''' \<or> (\<exists>q > 0. map_of (ErrorInjection (spec g)) f = Some q)"
    using inject_error_class [of rg "ErrorInjection (spec g)" "errClasses g" "if l > 0 then r3 else r2"] f by auto
  have "fst (buildPayload rg g c r) = \<lparr>WorkMillis = w, Bytes = (if l > 0 then Some bs else None), FailWithError = f, pl_Attempt = 0\<rparr>"
    using f by (cases "0 < l") (simp_all add: buildPayload_def w l b)
  then show ?thesis
    using W L F lb assms(2) by (auto simp: payload_of_class_def class_ok_def)
qed

lemma nextRequest_ok:
  assumes "rng_ok rg" "tenants g \<noteq> []" "spec_ok (spec g)"
  shows "request_ok g (fst (nextRequest rg g r))"
proof -
  obtain t r1 where t: "pickTenant rg g r = (t, r1)" by fastforce
  obtain c r2 where c: "pickKind rg g r1 = (c, r2)" by fastforce
  obtain c' r3 where c': "pickKind rg g r2 = (c', r3)" by fastforce
  obtain p r4 where p: "buildPayload rg g c' r3 = (p, r4)" by fastforce
  have mix: "JobMix (spec g) \<noteq> []" "\<forall>c \<in> set (JobMix (spec g)). class_ok c"
    using assms(3) by (auto simp: spec_ok_def list_all_iff)
  have "t \<in> set (tenants g)" using pickTenant_in_pool [OF assms(1,2), of r] t by simp
  moreover have "c \<in> set (JobMix (spec g))" "c' \<in> set (JobMix (spec g))"
    using pickKind_in_mix [OF mix(1), of rg r1] pickKind_in_mix [OF mix(1), of rg r2] c c' by auto
  moreover have "payload_of_class (spec g) c' p"
    using buildPayload_of_class [OF assms(1), of c' g r3] mix(2) calculation(3) p by simp
  ultimately show ?thesis by (auto simp: request_ok_def nextRequest_def t c c' p)
qed

lemma tick_count_whole: "mult_at (spec g) t = of_nat n \<Longrightarrow> tick_count rg g t r = (n, r)"
  by (simp add: tick_count_def mult_at_def Let_def)

lemma send_all_counts:
  assumes "lossy \<or> Cancelled \<notin> set ss"
  shows "\<exists>out d ss' r'. send_all rg g lossy n ss r = ((out, d, False), ss', r') \<and> length out + d = n
           \<and> set ss' \<subseteq> set ss \<and> (\<not> lossy \<longrightarrow> d = 0)"
  using assms
proof (induction n arbitrary: ss r)
  case (Suc n)
  obtain q r1 where q: "nextRequest rg g r = (q, r1)" by fastforce
  have sub: "set (tl ss) \<subseteq> set ss" by (cases ss) auto
  with Suc.prems have "lossy \<or> Cancelled \<notin> set (tl ss)" by blast
  from Suc.IH [OF this, of r1] obtain out d ss' r' where
    IH: "send_all rg g lossy n (tl ss) r1 = ((out, d, False), ss', r')" "length out + d = n"
        "set ss' \<subseteq> set (tl ss)" "\<not> lossy \<longrightarrow> d = 0" by blast
  have "\<not> (\<not> lossy \<and> (case ss of [] \<Rightarrow> Taken | x # _ \<Rightarrow> x) = Cancelled)"
    using Suc.prems by (cases ss) auto
  then show ?case using IH sub by (auto simp: q Let_def)
qed simp

lemma send_all_requests:
  assumes "rng_ok rg" "tenants g \<noteq> []" "spec_ok (spec g)"
  shows "send_all rg g lossy n ss r = ((out, d, b), z) \<Longrightarrow> q \<in> set out \<Longrightarrow> request_ok g q"
proof (induction n arbitrary: ss r out d b z)
  case (Suc n)
  obtain q1 r1 where q1: "nextRequest rg g r = (q1, r1)" by fastforce
  have ok: "request_ok g q1" using nextRequest_ok [OF assms, of r] q1 by simp
  show ?case using Suc.prems Suc.IH [of "tl ss" r1] ok
    by (auto simp: q1 Let_def split: if_splits prod.splits)
qed simp

lemma run_loop_offers:
  assumes "whole_rate (spec g)" "lossy \<or> Cancelled \<notin> set ss"
  shows "\<exists>out d. run_loop rg g lossy ws ss r = (out, d) \<and> (\<not> lossy \<longrightarrow> d = 0)
     \<and> of_nat (length out + d) = (\<Sum>t\<leftarrow>live_ticks (sp_Duration (spec g)) ws. mult_at (spec g) t)"
  using assms(2)
proof (induction ws arbitrary: ss r)
  case (Cons w ws)
  show ?case
  proof (cases w)
    case (Tick t)
    show ?thesis
    proof (cases "t \<ge> sp_Duration (spec g)")
      case False
      obtain n where n: "mult_at (spec g) t = of_nat n" using assms(1) by (auto simp: whole_rate_def)
      obtain out d ss' r' where s: "send_all rg g lossy n ss r = ((out, d, False), ss', r')"
          "length out + d = n" "set ss' \<subseteq> set ss" "\<not> lossy \<longrightarrow> d = 0"
        using send_all_counts [OF Cons.prems, of rg g n r] by blast
      then have "lossy \<or> Cancelled \<notin> set ss'" using Cons.prems by blast
      from Cons.IH [OF this, of r'] obtain out' d' where IH: "run_loop rg g lossy ws ss' r' = (out', d')" "\<not> lossy \<longrightarrow> d' = 0"
          "of_nat (length out' + d') = (\<Sum>t\<leftarrow>live_ticks (sp_Duration (spec g)) ws. mult_at (spec g) t)" by blast
      have "of_nat (length (out @ out') + (d + d')) = (\<Sum>t\<leftarrow>live_ticks (sp_Duration (spec g)) (Tick t # ws). mult_at (spec g) t)"
        using s(2) IH(3) False n by (auto simp: algebra_simps)
      then show ?thesis
        using False s(4) IH(2) by (simp add: Tick tick_count_whole [OF n] s(1) IH(1))
    qed (simp add: Tick)
  qed simp
qed simp

lemma run_loop_requests:
  assumes "rng_ok rg" "tenants g \<noteq> []" "spec_ok (spec g)"
  shows "run_loop rg g lossy ws ss r = (out, d) \<Longrightarrow> q \<in> set out \<Longrightarrow> request_ok g q"
proof (induction ws arbitrary: ss r out d)
  case (Cons w ws)
  show ?case
  proof (cases w)
    case (Tick t)
    then show ?thesis using Cons.prems
      by (auto split: if_splits prod.splits dest: send_all_requests [OF assms] Cons.IH)
  qed (use Cons.prems in simp)
qed simp

lemma baseInterval_pos: "0 < rate \<Longrightarrow> rate \<le> Second \<Longrightarrow> 0 < baseInterval rate"
  by (simp add: baseInterval_def pos_imp_zdiv_pos_iff)

text \<open>C20: on a well-formed specification whose multipliers are whole, the generator offers to the channel, for every tick before \<open>Duration\<close> and before the context ends, as many jobs as the multiplier of that tick: each is sent or counted as dropped (never dropped without a callback), and each one sent has a tenant of the pool, a kind of the mix and a payload in the ranges of a class of the mix.\<close>

theorem Run_offers_the_rate:
  assumes "rng_ok rg" "tenants g \<noteq> []" "spec_ok (spec g)" "whole_rate (spec g)" "lossy \<or> Cancelled \<notin> set ss"
  shows "\<exists>out d. Run_generator rg g lossy ws ss r = Streamed out d \<and> (\<not> lossy \<longrightarrow> d = 0)
     \<and> of_nat (length out + d) = (\<Sum>t\<leftarrow>live_ticks (sp_Duration (spec g)) ws. mult_at (spec g) t)
     \<and> (\<forall>q \<in> set out. request_ok g q)"
proof -
  obtain out d where *: "run_loop rg g lossy ws ss r = (out, d)" "\<not> lossy \<longrightarrow> d = 0"
      "of_nat (length out + d) = (\<Sum>t\<leftarrow>live_ticks (sp_Duration (spec g)) ws. mult_at (spec g) t)"
    using run_loop_offers [OF assms(4,5), of rg ws r] by blast
  have "0 < EnqueueRate (spec g)" "0 < baseInterval (EnqueueRate (spec g))"
    using assms(3) by (auto simp: spec_ok_def intro: baseInterval_pos)
  then have "Run_generator rg g lossy ws ss r = Streamed out d" by (simp add: Run_generator_def Let_def *(1))
  then show ?thesis using * run_loop_requests [OF assms(1-3) *(1)] by blast
qed

lemma sample_rng_ok: "rng_ok sample_rng"
  by (simp add: rng_ok_def sample_rng_def)

lemma f64_unit: "0 \<le> x \<Longrightarrow> x \<le> 1 \<Longrightarrow> 0 \<le> f64 x \<and> f64 x \<le> 1"
  using f64_ge_int [of 0 x] f64_le_int [of x 1] by simp

lemma defaultMix_ok: "list_all class_ok defaultMix" "distinct (map jc_Kind defaultMix)" "defaultMix \<noteq> []"
  by (simp_all add: defaultMix_def job_class_def class_ok_def)

lemma base_spec_ok:
  assumes "0 < secs" "0 < tn" "0 < rate" "rate \<le> Second"
  shows "spec_ok (base_spec name secs tn rate seed)"
  using assms defaultMix_ok by (simp add: spec_ok_def base_spec_def Second_def)

lemma spec_ok_update:
  "spec_ok s \<Longrightarrow> spec_ok (s\<lparr>sp_RateCurve := f\<rparr>)"
  "spec_ok s \<Longrightarrow> 0 \<le> x \<Longrightarrow> x \<le> 1 \<Longrightarrow> spec_ok (s\<lparr>TenantSkew := x\<rparr>)"
  "spec_ok s \<Longrightarrow> list_all (\<lambda>(c, p). 0 \<le> p \<and> p \<le> 1) ei \<Longrightarrow> spec_ok (s\<lparr>ErrorInjection := ei\<rparr>)"
  "spec_ok s \<Longrightarrow> mix \<noteq> [] \<Longrightarrow> list_all class_ok mix \<Longrightarrow> distinct (map jc_Kind mix) \<Longrightarrow> spec_ok (s\<lparr>JobMix := mix\<rparr>)"
  by (simp_all add: spec_ok_def)

lemma whole_rate_base: "whole_rate (base_spec name secs tn rate seed)"
  by (auto simp: whole_rate_def mult_at_def base_spec_def intro: exI [of _ 1])

lemma whole_rate_update:
  "whole_rate s \<Longrightarrow> whole_rate (s\<lparr>TenantSkew := x\<rparr>)"
  "whole_rate s \<Longrightarrow> whole_rate (s\<lparr>ErrorInjection := ei\<rparr>)"
  "whole_rate s \<Longrightarrow> whole_rate (s\<lparr>JobMix := mix\<rparr>)"
  "whole_rate (s\<lparr>sp_RateCurve := Some (Burst a b (of_nat n))\<rparr>)"
proof -
  have "\<exists>m :: nat. (if P then of_nat n else 1 :: rat) = of_nat m" for P
    by (cases P) (auto intro: exI [of _ n] exI [of _ 1])
  then show "whole_rate (s\<lparr>sp_RateCurve := Some (Burst a b (of_nat n))\<rparr>)"
    by (simp add: whole_rate_def mult_at_def Burst_def Let_def)
qed (simp_all add: whole_rate_def mult_at_def)

lemma base_spec_name [simp]: "sp_Name (base_spec name secs tn rate seed) = name"
  by (simp add: base_spec_def)

lemma Second_pos: "0 < Second" "300 \<le> Second"
  by (simp_all add: Second_def)

lemma SpecFor_Inr:
  assumes "SpecFor name = Inr s"
  shows "spec_ok s \<and> whole_rate s \<and> sp_Name s = name"
proof -
  have b: "spec_ok (base_spec n 10 5 50 1)" "spec_ok (base_spec n 10 5 30 10)" "spec_ok (base_spec n 10 5 80 11)"
    "spec_ok (base_spec n 15 5 50 2)" "spec_ok (base_spec n 10 10 50 3)" "spec_ok (base_spec n 10 5 30 4)"
    "spec_ok (base_spec n 10 10 100 12)" "spec_ok (base_spec n 15 10 300 13)" "spec_ok (base_spec n 10 1 20 5)" for n
    by (rule base_spec_ok; simp add: Second_def)+
  have w: "whole_rate (s\<lparr>sp_RateCurve := Some (Burst a b 10)\<rparr>)" for s a b
    using whole_rate_update(4) [where n = 10] by simp
  show ?thesis
    using assms b f64_unit [of "5 / 10"] f64_unit [of "3 / 10"] f64_unit [of "9 / 10"]
    by (auto simp: SpecFor_def whole_rate_base w class_ok_def job_class_def intro!: spec_ok_update whole_rate_update
          split: if_splits)
qed


lemma Burst_window:
  assumes "0 \<le> a" "0 \<le> w" "a + w < 2 ^ 63"
  shows "Burst a w m t = (if a \<le> t \<and> t < a + w then m else 1)"
  using assms by (simp add: Burst_def in_int64_def Let_def)

lemma steady_total: "foldl (\<lambda>t c. f64 (t + Weight c)) 0 defaultMix = 100"
  by code_simp

lemma pick_default:
  "pick_loop x 0 defaultMix =
     (if x < 60 then Some (defaultMix ! 0) else if x < 80 then Some (defaultMix ! 1)
      else if x < 95 then Some (defaultMix ! 2) else if x < 100 then Some (defaultMix ! 3) else None)"
proof -
  have "f64 60 = 60" "f64 80 = 80" "f64 95 = 95" "f64 100 = 100"
    using f64_int [of 60] f64_int [of 80] f64_int [of 95] f64_int [of 100] by simp_all
  then show ?thesis by (simp add: defaultMix_def job_class_def)
qed

text \<open>in every scenario with the default mix, the class drawn is decided by the thresholds 60, 80 and 95 on the scaled random number, so the four classes have their weights as percentages.\<close>

theorem pickKind_default:
  assumes "SpecFor name = Inr s" "name \<noteq> ''notify_latency''" "g = fst (NewGenerator newPCG s pool)"
  shows "fst (pickKind rg g r) = defaultMix ! (let x = f64 (fst (Float64 rg r) * 100) in
           if x < 60 then 0 else if x < 80 then 1 else if x < 95 then 2 else 3)"
proof -
  have m: "JobMix s = defaultMix"
    using assms(1,2) by (auto simp: SpecFor_def base_spec_def split: if_splits)
  have l: "length defaultMix = 4" by (simp add: defaultMix_def)
  show ?thesis
    by (simp add: assms(3) NewGenerator_def pickKind_def m steady_total pick_default l defaultMix_ok(3) Let_def split: prod.split)
qed

text \<open>the kind and the payload of a request are two independent draws: for the steady scenario there is a behaviour of the random source for which a request of kind \<open>entity_update\<close> carries a payload no \<open>entity_update\<close> class allows.\<close>

theorem kind_and_payload_disagree:
  assumes "SpecFor ''steady'' = Inr s" "pool \<noteq> []" "g = fst (NewGenerator newPCG s pool)"
  shows "\<exists>(rg :: nat rng) r q. rng_ok rg \<and> q = fst (nextRequest rg g r) \<and> req_Kind q = ''entity_update''
     \<and> (\<forall>c \<in> set (JobMix s). jc_Kind c = req_Kind q \<longrightarrow> \<not> payload_of_class s c (req_Payload q))"
proof -
  let ?q = "fst (nextRequest sample_rng g 0)"
  have s: "s = base_spec ''steady'' 10 5 50 1" using assms(1) by (simp add: SpecFor_def)
  have f: "f64 99 = 99" using f64_int [of 99] by simp
  have g: "JobMix (spec g) = defaultMix" "totalWeight g = 100" "TenantSkew (spec g) = 0" "tenants g = pool"
    by (simp_all add: assms(3) NewGenerator_def s base_spec_def steady_total)
  have t: "pickTenant sample_rng g 0 = (pool ! 0, Suc 0)"
    using assms(2) by (simp add: pickTenant_def g sample_rng_def)
  have k1: "pickKind sample_rng g (Suc 0) = (defaultMix ! 0, 2)"
    using defaultMix_ok(3) by (simp add: pickKind_def g pick_default sample_rng_def)
  have k2: "pickKind sample_rng g 2 = (defaultMix ! 3, 3)"
    using defaultMix_ok(3) by (simp add: pickKind_def g pick_default sample_rng_def f)
  have "req_Kind ?q = ''entity_update''"
    by (simp add: nextRequest_def t k1 k2 split: prod.split) (simp add: defaultMix_def job_class_def)
  moreover have "WorkMillis (req_Payload ?q) = 1000"
    by (simp add: nextRequest_def t k1 k2 buildPayload_def split: prod.split)
       (simp add: draw_range_def defaultMix_def job_class_def sample_rng_def in_int64_def)
  ultimately show ?thesis
    using sample_rng_ok by (intro exI [of _ sample_rng] exI [of _ 0] exI [of _ ?q])
      (auto simp: s base_spec_def defaultMix_def job_class_def payload_of_class_def)
qed

lemma burst_gen_ok: "spec_ok (spec burst_gen)" "whole_rate (spec burst_gen)" "tenants burst_gen \<noteq> []"
proof -
  have s: "SpecFor ''burst'' = Inr (spec burst_gen)" by (simp add: SpecFor_def burst_gen_def NewGenerator_def)
  from SpecFor_Inr [OF this] show "spec_ok (spec burst_gen)" "whole_rate (spec burst_gen)" by auto
  show "tenants burst_gen \<noteq> []" by (simp add: burst_gen_def NewGenerator_def pool_of_def)
qed

theorem Run_offers_the_rate_witness:
  "\<exists>out d. Run_generator sample_rng burst_gen True (map (\<lambda>k. Tick (k * Second)) [4, 5, 9, 10, 15, 16]) [Full] 0 = Streamed out d
     \<and> length out + d = 22"
proof -
  let ?ws = "map (\<lambda>k. Tick (k * Second)) [4, 5, 9, 10, 15, 16]"
  have "(\<Sum>t\<leftarrow>live_ticks (sp_Duration (spec burst_gen)) ?ws. mult_at (spec burst_gen) t) = 22"
    by (simp add: burst_gen_def NewGenerator_def base_spec_def mult_at_def Burst_window Second_def)
  then show ?thesis
    using Run_offers_the_rate [OF sample_rng_ok burst_gen_ok(3,1,2), of True "[Full]" ?ws 0]
      of_nat_eq_iff [where 'a = rat and n = 22] by auto
qed

theorem pickTenant_skew_witness:
  "fst (pickTenant sample_rng noisy_gen 0) \<noteq> tenants noisy_gen ! 0 \<and> fst (pickTenant sample_rng noisy_gen 1) = tenants noisy_gen ! 0"
proof -
  have h: "f64 (1 / 2) = 1 / 2" by code_simp
  have "distinct (tenants noisy_gen)" "1 < length (tenants noisy_gen)"
    by (simp_all add: noisy_gen_def NewGenerator_def pool_of_def upt_rec)
  moreover have s: "TenantSkew (spec noisy_gen) = 1 / 2"
    by (simp add: noisy_gen_def NewGenerator_def h)
  ultimately show ?thesis
    using pickTenant_skew [OF sample_rng_ok, of noisy_gen 0] pickTenant_skew [OF sample_rng_ok, of noisy_gen 1]
    by (simp add: sample_rng_def)
qed

theorem pickKind_default_witness:
  "jc_Kind (fst (pickKind sample_rng burst_gen 0)) = ''document_process''"
proof -
  have s: "SpecFor ''burst'' = Inr (spec burst_gen)" by (simp add: SpecFor_def burst_gen_def NewGenerator_def)
  have f: "f64 99 = 99" using f64_int [of 99] by simp
  have g: "burst_gen = fst (NewGenerator (\<lambda>a b. 0 :: nat) (spec burst_gen) (pool_of 5))"
    by (simp add: burst_gen_def NewGenerator_def)
  from pickKind_default [OF s _ g, of sample_rng 0] show ?thesis
    by (simp add: sample_rng_def f defaultMix_def job_class_def)
qed

theorem kind_and_payload_disagree_witness:
  "\<exists>(rg :: nat rng) r. rng_ok rg \<and> req_Kind (fst (nextRequest rg (fst (NewGenerator (\<lambda>a b. 0 :: nat)
     (base_spec ''steady'' 10 5 50 1) (pool_of 5))) r)) = ''entity_update''"
  using kind_and_payload_disagree [of "base_spec ''steady'' 10 5 50 1" "pool_of 5" _ "\<lambda>a b. 0 :: nat", OF _ _ refl]
  by (auto simp: SpecFor_def pool_of_def)

end
