(* ===== verification/Bench_Runner.thy ===== *)
theory Bench_Runner
  imports Metrics_Recorder Workload Harness_Interface
begin

text \<open>
  One benchmark run (\<^verbatim>\<open>internal/runner/runner.go\<close>): the worker function that records every job, the enqueue
  goroutines, the resource sampler, and the sequence of a run. The harness is a record of its
  operations, which both adapters provide. The goroutines run interleaved: a schedule is a list of
  actions, each one the code between two points where another goroutine can see a difference (a
  harness call, an atomic counter, a line of the results file). \<open>bench_env\<close> holds what the clock and the
  operating system answer, and the text of a UUID.
\<close>

section \<open>Shared state\<close>

record bench_env =
  fmt_time :: "int \<Rightarrow> string"
  Now :: "nat \<Rightarrow> int"
  WriteErr :: "nat \<Rightarrow> goerr option"
  select_pick :: "nat \<Rightarrow> bool"
  tenant_String :: "UUID \<Rightarrow> string"

record bench =
  recorder :: Recorder
  enqueueCount :: int
  completedCount :: int
  failedCount :: int
  clock_ix :: nat
  write_ix :: nat

definition time_Now :: "bench_env \<Rightarrow> 'a bench_scheme \<Rightarrow> int \<times> 'a bench_scheme" where
  "time_Now env b = (Now env (clock_ix b), b\<lparr>clock_ix := Suc (clock_ix b)\<rparr>)"

definition rec_Record ::
    "bench_env \<Rightarrow> string \<Rightarrow> (string \<times> json) list \<Rightarrow> 'a bench_scheme \<Rightarrow> goerr option \<times> 'a bench_scheme" where
  "rec_Record env kind fs b =
     (case time_Now env b of (t, b1) \<Rightarrow>
      case Record (fmt_time env) (WriteErr env (write_ix b)) t kind fs (recorder b) of (e, r) \<Rightarrow>
        (e, b1\<lparr>recorder := r, write_ix := Suc (write_ix b)\<rparr>))"

text \<open>Times are nanoseconds since Go's zero time, year 1; \<^verbatim>\<open>UnixNano\<close> counts from 1970.\<close>

definition UnixNano :: "int \<Rightarrow> int" where
  "UnixNano t = int64_of (t - 62135596800 * Second)"

definition Milliseconds :: "Duration \<Rightarrow> int" where
  "Milliseconds d = quot_trunc d 1000000"

definition JInt :: "int \<Rightarrow> json" where
  "JInt i = JNum (of_int i)"

section \<open>The worker function\<close>

definition job_fields :: "bench_env \<Rightarrow> Job \<Rightarrow> (string \<times> json) list" where
  "job_fields env job = [(''job_id'', JStr (job_ID job)), (''tenant_id'', JStr (tenant_String env (job_TenantID job))),
     (''kind'', JStr (job_Kind job)), (''attempt'', JInt (job_Attempt job))]"

text \<open>Up to the call of \<^verbatim>\<open>Simulate\<close>.\<close>

definition worker_begin :: "bench_env \<Rightarrow> Job \<Rightarrow> 'a bench_scheme \<Rightarrow> int \<times> 'a bench_scheme" where
  "worker_begin env job b =
     (case time_Now env b of (startedAt, b1) \<Rightarrow>
        (startedAt, snd (rec_Record env KindJobStarted (job_fields env job @ [(''started_at_ns'', JInt (UnixNano startedAt))]) b1)))"

text \<open>After \<^verbatim>\<open>Simulate\<close> has returned: the clock readings and the counter.\<close>

definition worker_count :: "bench_env \<Rightarrow> int \<Rightarrow> goerr option \<Rightarrow> 'a bench_scheme \<Rightarrow> (Duration \<times> int) \<times> 'a bench_scheme" where
  "worker_count env startedAt err b =
     (case time_Now env b of (t1, b1) \<Rightarrow>
      case time_Now env b1 of (completedAt, b2) \<Rightarrow>
        ((time_sub t1 startedAt, completedAt),
         (case err of
            Some e \<Rightarrow> b2\<lparr>failedCount := int64_of (failedCount b2 + 1)\<rparr>
          | None \<Rightarrow> b2\<lparr>completedCount := int64_of (completedCount b2 + 1)\<rparr>)))"

definition error_class :: "goerr \<Rightarrow> string" where
  "error_class e = (case IsSimulatedError e of Some c \<Rightarrow> c | None \<Rightarrow> '''')"

definition worker_record ::
    "bench_env \<Rightarrow> Job \<Rightarrow> goerr option \<Rightarrow> Duration \<times> int \<Rightarrow> 'a bench_scheme \<Rightarrow> 'a bench_scheme" where
  "worker_record env job err dc b =
     (case dc of (duration, completedAt) \<Rightarrow>
      let fs = job_fields env job @ [(''duration_ms'', JInt (Milliseconds duration)), (''completed_at_ns'', JInt (UnixNano completedAt))] in
      case err of
        Some e \<Rightarrow> snd (rec_Record env KindJobFailed
                   (fs @ [(''error_class'', JStr (error_class e)), (''error_message'', JStr (error_text e))]) b)
      | None \<Rightarrow> snd (rec_Record env KindJobCompleted fs b))"

definition workerFn :: "bench_env \<Rightarrow> Context \<Rightarrow> Job \<Rightarrow> 'a bench_scheme \<Rightarrow> goerr option \<times> 'a bench_scheme" where
  "workerFn env wctx job b =
     (case worker_begin env job b of (startedAt, b1) \<Rightarrow>
      let err = fst (Simulate wctx (select_pick env (clock_ix b1)) job) in
      case worker_count env startedAt err b1 of (dc, b2) \<Rightarrow> (err, worker_record env job err dc b2))"

section \<open>Configuration and harness\<close>

record RunnerConfig =
  rc_Library :: string
  rc_Spec :: Spec
  EnqueueConcurrency :: int
  DrainTimeout :: Duration
  ResourceSampleInterval :: Duration

definition with_defaults :: "RunnerConfig \<Rightarrow> RunnerConfig" where
  "with_defaults c =
     (let c1 = (if EnqueueConcurrency c \<le> 0 then c\<lparr>EnqueueConcurrency := 4\<rparr> else c);
          c2 = (if DrainTimeout c1 \<le> 0 then c1\<lparr>DrainTimeout := sp_Duration (rc_Spec c1)\<rparr> else c1)
      in if ResourceSampleInterval c2 \<le> 0 then c2\<lparr>ResourceSampleInterval := Second\<rparr> else c2)"

record ('f, 'h) harness_ops =
  op_Register :: "Kind \<Rightarrow> 'f \<Rightarrow> 'h \<Rightarrow> goerr option \<times> 'h"
  op_Start :: "'h \<Rightarrow> goerr option \<times> 'h"
  op_Enqueue :: "Context \<Rightarrow> UUID \<Rightarrow> Kind \<Rightarrow> JobPayload \<Rightarrow> 'h \<Rightarrow> (goerr + JobID) \<times> 'h"
  op_Stop :: "'h \<Rightarrow> stop_result \<times> 'h"

section \<open>Starting\<close>

definition run_start_fields :: "RunnerConfig \<Rightarrow> (string \<times> json) list" where
  "run_start_fields c =
     (let s = rc_Spec c in
      [(''library'', JStr (rc_Library c)), (''scenario'', JStr (sp_Name s)), (''duration_sec'', JNum (Seconds (sp_Duration s))),
       (''enqueue_rate'', JInt (EnqueueRate s)), (''tenants'', JInt (Tenants s)), (''tenant_skew'', JNum (TenantSkew s)),
       (''seed'', JInt (uint (Seed s)))])"

text \<open>\<open>order\<close> is the order in which the loop visits the set of kinds.\<close>

fun register_kinds ::
    "(Kind \<Rightarrow> 'f \<Rightarrow> 'h \<Rightarrow> goerr option \<times> 'h) \<Rightarrow> (Kind \<Rightarrow> 'f) \<Rightarrow> Kind list \<Rightarrow> 'h \<Rightarrow> goerr option \<times> 'h" where
  "register_kinds reg fn [] h = (None, h)"
| "register_kinds reg fn (k # ks) h =
     (case reg k (fn k) h of
        (Some e, h') \<Rightarrow> (Some (Errorf (''register worker '' @ go_quote k @ '': '') e), h')
      | (None, h') \<Rightarrow> register_kinds reg fn ks h')"

definition Run_setup ::
    "bench_env \<Rightarrow> ('f, 'h) harness_ops \<Rightarrow> (Kind \<Rightarrow> 'f) \<Rightarrow> Kind list \<Rightarrow> RunnerConfig \<Rightarrow> bench \<Rightarrow> 'h \<Rightarrow> goerr option \<times> bench \<times> 'h" where
  "Run_setup env ops fn order c b h =
     (case rec_Record env KindRunStart (run_start_fields c) b of
        (Some e, b1) \<Rightarrow> (Some (Errorf ''record run_start: '' e), b1, h)
      | (None, b1) \<Rightarrow>
          (case register_kinds (op_Register ops) fn order h of
             (Some e, h1) \<Rightarrow> (Some e, b1, h1)
           | (None, h1) \<Rightarrow>
               (case op_Start ops h1 of
                  (Some e, h2) \<Rightarrow> (Some (Errorf ''start harness: '' e), b1, h2)
                | (None, h2) \<Rightarrow> (None, b1, h2))))"

section \<open>The goroutines\<close>

text \<open>
  An enqueue goroutine is between requests, back from \<^verbatim>\<open>Enqueue\<close>, or past the counter with the event to record. A call
  of the worker function is in \<^verbatim>\<open>Simulate\<close> (with the result that will have), or past the counter.
\<close>

datatype enqueuer =
    Idle
  | Called EnqueueRequest "goerr + JobID" int
  | Enqueued EnqueueRequest JobID int int

datatype call =
    InWork Job "goerr option" int
  | Finished Job "goerr option" "Duration \<times> int"

record 'h run_state =
  reqs :: "EnqueueRequest list"
  enqs :: "enqueuer list"
  calls :: "call list"
  hst :: 'h
  bst :: bench

datatype action =
    Take Context nat
  | Return nat
  | Log nat
  | Deliver Context Job
  | Finish nat
  | LogCall nat
  | Sample int int int

definition enqueue_failed_fields :: "bench_env \<Rightarrow> EnqueueRequest \<Rightarrow> goerr \<Rightarrow> (string \<times> json) list" where
  "enqueue_failed_fields env q e = [(''tenant_id'', JStr (tenant_String env (req_TenantID q))), (''kind'', JStr (req_Kind q)),
     (''stage'', JStr ''enqueue''), (''error_message'', JStr (error_text e))]"

definition enqueued_fields :: "bench_env \<Rightarrow> EnqueueRequest \<Rightarrow> JobID \<Rightarrow> int \<Rightarrow> int \<Rightarrow> (string \<times> json) list" where
  "enqueued_fields env q i submittedAt enqueuedAt = [(''job_id'', JStr i), (''tenant_id'', JStr (tenant_String env (req_TenantID q))),
     (''kind'', JStr (req_Kind q)), (''submitted_at_ns'', JInt (UnixNano submittedAt)), (''enqueued_at_ns'', JInt (UnixNano enqueuedAt)),
     (''enqueue_call_ms'', JInt (Milliseconds (time_sub enqueuedAt submittedAt)))]"

definition enqueuer_take :: "bench_env \<Rightarrow> ('f, 'h) harness_ops \<Rightarrow> Context \<Rightarrow> nat \<Rightarrow> 'h run_state \<Rightarrow> 'h run_state" where
  "enqueuer_take env ops ctx i s =
     (case reqs s of
        [] \<Rightarrow> s
      | q # qs \<Rightarrow>
          (case time_Now env (bst s) of (submittedAt, b) \<Rightarrow>
           case op_Enqueue ops ctx (req_TenantID q) (req_Kind q) (req_Payload q) (hst s) of (res, h) \<Rightarrow>
             s\<lparr>reqs := qs, enqs := (enqs s)[i := Called q res submittedAt], hst := h, bst := b\<rparr>))"

definition enqueuer_return :: "bench_env \<Rightarrow> nat \<Rightarrow> EnqueueRequest \<Rightarrow> goerr + JobID \<Rightarrow> int \<Rightarrow> 'h run_state \<Rightarrow> 'h run_state" where
  "enqueuer_return env i q res submittedAt s =
     (case res of
        Inl e \<Rightarrow> s\<lparr>enqs := (enqs s)[i := Idle], bst := snd (rec_Record env KindJobFailed (enqueue_failed_fields env q e) (bst s))\<rparr>
      | Inr j \<Rightarrow>
          (case time_Now env (bst s) of (enqueuedAt, b) \<Rightarrow>
             s\<lparr>enqs := (enqs s)[i := Enqueued q j submittedAt enqueuedAt],
               bst := b\<lparr>enqueueCount := int64_of (enqueueCount b + 1)\<rparr>\<rparr>))"

definition sampler_tick :: "bench_env \<Rightarrow> int \<Rightarrow> int \<Rightarrow> int \<Rightarrow> bench \<Rightarrow> bench" where
  "sampler_tick env goroutines sys heap b =
     snd (rec_Record env KindResourceSample
       [(''goroutines'', JInt goroutines), (''rss_bytes'', JInt sys), (''heap_bytes'', JInt heap),
        (''enqueued'', JInt (enqueueCount b)), (''completed'', JInt (completedCount b)), (''failed'', JInt (failedCount b))] b)"

text \<open>An action that its goroutine is not ready for changes nothing.\<close>

definition exec_action :: "bench_env \<Rightarrow> ('f, 'h) harness_ops \<Rightarrow> action \<Rightarrow> 'h run_state \<Rightarrow> 'h run_state" where
  "exec_action env ops a s =
     (case a of
        Take ctx i \<Rightarrow> if i < length (enqs s) \<and> enqs s ! i = Idle then enqueuer_take env ops ctx i s else s
      | Return i \<Rightarrow>
          if i < length (enqs s)
          then (case enqs s ! i of Called q res t \<Rightarrow> enqueuer_return env i q res t s | _ \<Rightarrow> s) else s
      | Log i \<Rightarrow>
          if i < length (enqs s)
          then (case enqs s ! i of
                  Enqueued q j t t' \<Rightarrow> s\<lparr>enqs := (enqs s)[i := Idle],
                     bst := snd (rec_Record env KindJobEnqueued (enqueued_fields env q j t t') (bst s))\<rparr>
                | _ \<Rightarrow> s) else s
      | Deliver ctx job \<Rightarrow>
          (case worker_begin env job (bst s) of (t, b) \<Rightarrow>
             s\<lparr>calls := calls s @ [InWork job (fst (Simulate ctx (select_pick env (clock_ix b)) job)) t], bst := b\<rparr>)
      | Finish i \<Rightarrow>
          if i < length (calls s)
          then (case calls s ! i of
                  InWork job err t \<Rightarrow>
                    (case worker_count env t err (bst s) of (dc, b) \<Rightarrow> s\<lparr>calls := (calls s)[i := Finished job err dc], bst := b\<rparr>)
                | _ \<Rightarrow> s) else s
      | LogCall i \<Rightarrow>
          if i < length (calls s)
          then (case calls s ! i of
                  Finished job err dc \<Rightarrow>
                    s\<lparr>calls := take i (calls s) @ drop (Suc i) (calls s), bst := worker_record env job err dc (bst s)\<rparr>
                | _ \<Rightarrow> s) else s
      | Sample g sys heap \<Rightarrow> s\<lparr>bst := sampler_tick env g sys heap (bst s)\<rparr>)"

definition exec_actions :: "bench_env \<Rightarrow> ('f, 'h) harness_ops \<Rightarrow> action list \<Rightarrow> 'h run_state \<Rightarrow> 'h run_state" where
  "exec_actions env ops as s = fold (exec_action env ops) as s"

section \<open>The whole run\<close>

datatype run_result = RunReturns "goerr option" | RunPanics string | RunBlocked

text \<open>\<open>gen_env\<close>: the random source, the tenant ids, the ticks of the generator and the readiness of its sends.\<close>

record 'r gen_env =
  ge_rng :: "'r rng"
  ge_PCG :: "uint64 \<Rightarrow> uint64 \<Rightarrow> 'r"
  ge_pool :: "UUID list"
  ge_wakes :: "wake list"
  ge_sends :: "send list"

definition run_end_fields :: "bench \<Rightarrow> (string \<times> json) list" where
  "run_end_fields b =
     [(''enqueued'', JInt (enqueueCount b)), (''completed'', JInt (completedCount b)), (''failed'', JInt (failedCount b))]"

definition worker_action :: "action \<Rightarrow> bool" where
  "worker_action a \<longleftrightarrow> (case a of Deliver ctx j \<Rightarrow> True | Finish i \<Rightarrow> True | LogCall i \<Rightarrow> True | _ \<Rightarrow> False)"

text \<open>
  After the generator and the enqueue goroutines have ended and the drain time is over: stop the harness, then
  record \<^verbatim>\<open>run_end\<close>. \<open>late\<close> is what worker calls the harness left behind still do in between.
\<close>

definition Run_finish ::
    "bench_env \<Rightarrow> ('f, 'h) harness_ops \<Rightarrow> action list \<Rightarrow> 'h run_state \<Rightarrow> run_result \<times> 'h run_state" where
  "Run_finish env ops late s =
     (case op_Stop ops (hst s) of
        (Panicked m, h) \<Rightarrow> (RunPanics m, s\<lparr>hst := h\<rparr>)
      | (Returned (Some e), h) \<Rightarrow>
          (RunReturns (Some (Errorf ''stop harness: '' e)),
           s\<lparr>hst := h, bst := snd (rec_Record env KindRunEnd [(''stop_error'', JStr (error_text e))] (bst s))\<rparr>)
      | (Returned None, h) \<Rightarrow>
          let s1 = exec_actions env ops (filter worker_action late) (s\<lparr>hst := h\<rparr>) in
          (case rec_Record env KindRunEnd (run_end_fields (bst s1)) (bst s1) of
             (Some e, b) \<Rightarrow> (RunReturns (Some (Errorf ''record run_end: '' e)), s1\<lparr>bst := b\<rparr>)
           | (None, b) \<Rightarrow> (RunReturns None, s1\<lparr>bst := b\<rparr>)))"

definition start_state :: "RunnerConfig \<Rightarrow> EnqueueRequest list \<Rightarrow> bench \<Rightarrow> 'h \<Rightarrow> 'h run_state" where
  "start_state c out b h = \<lparr>reqs = out, enqs = replicate (nat (EnqueueConcurrency c)) Idle, calls = [], hst = h, bst = b\<rparr>"

definition Run_bench ::
    "bench_env \<Rightarrow> 'r gen_env \<Rightarrow> ('f, 'h) harness_ops \<Rightarrow> (Kind \<Rightarrow> 'f) \<Rightarrow> Kind list \<Rightarrow> action list \<Rightarrow> action list
     \<Rightarrow> RunnerConfig \<Rightarrow> bench \<Rightarrow> 'h \<Rightarrow> run_result \<times> 'h run_state" where
  "Run_bench env ge ops fn order acts late c0 b h =
     (let c = with_defaults c0; s0 = (\<lambda>b h. start_state c [] b h) in
      case Run_setup env ops fn order c b h of
        (Some e, b1, h1) \<Rightarrow> (RunReturns (Some e), s0 b1 h1)
      | (None, b1, h1) \<Rightarrow>
          if int64_of (EnqueueRate (rc_Spec c) * 2) < 0 then (RunPanics ''makechan: size out of range'', s0 b1 h1)
          else if Tenants (rc_Spec c) < 0 then (RunPanics ''makeslice: len out of range'', s0 b1 h1)
          else case NewGenerator (ge_PCG ge) (rc_Spec c) (ge_pool ge) of (g, r) \<Rightarrow>
            (case Run_generator (ge_rng ge) g False (ge_wakes ge) (ge_sends ge) r of
               TickerPanics \<Rightarrow> (RunPanics ''non-positive interval for NewTicker'', s0 b1 h1)
             | Streamed out d \<Rightarrow>
                 let s = exec_actions env ops acts (start_state c out b1 h1) in
                 if reqs s \<noteq> [] \<or> \<not> list_all (\<lambda>e. e = Idle) (enqs s) then (RunBlocked, s)
                 else Run_finish env ops late s))"

text \<open>
  Reference counts. \<open>tally\<close>: the lines of the file are those there before and the events \<open>evs\<close>, and each
  counter is the number of its events, plus the goroutines between the counter and the event.
\<close>

definition n_kind :: "string \<Rightarrow> Event list \<Rightarrow> int" where
  "n_kind k evs = int (length (filter (\<lambda>e. Kind e = k) evs))"

definition worker_failures :: "Event list \<Rightarrow> int" where
  "worker_failures evs = int (length (filter (\<lambda>e. Kind e = KindJobFailed \<and> jget (Fields e) ''stage'' = None) evs))"

fun is_enqueued :: "enqueuer \<Rightarrow> bool" where
  "is_enqueued (Enqueued q j t t') = True"
| "is_enqueued e = False"

fun is_finished :: "bool \<Rightarrow> call \<Rightarrow> bool" where
  "is_finished ok (Finished job err dc) = (ok = (err = None))"
| "is_finished ok c = False"

definition good_event :: "bench_env \<Rightarrow> string \<Rightarrow> Event \<Rightarrow> bool" where
  "good_event env rid e \<longleftrightarrow> RunID e = rid \<and> distinct (map fst (Fields e)) \<and> (\<exists>i. Timestamp e = Now env i)"

definition job_event :: "Event \<Rightarrow> bool" where
  "job_event e \<longleftrightarrow> Kind e \<noteq> KindRunStart \<and> Kind e \<noteq> KindRunEnd"

definition tally :: "bench_env \<Rightarrow> Recorder \<Rightarrow> Event list \<Rightarrow> 'h run_state \<Rightarrow> bool" where
  "tally env r0 evs s \<longleftrightarrow>
     recorder (bst s) = r0\<lparr>rec_lines := rec_lines r0 @ map (marshal_Event (fmt_time env)) evs\<rparr>
     \<and> list_all (good_event env (runID r0)) evs \<and> list_all job_event evs
     \<and> enqueueCount (bst s) = int64_of (n_kind KindJobEnqueued evs + int (length (filter is_enqueued (enqs s))))
     \<and> completedCount (bst s) = int64_of (n_kind KindJobCompleted evs + int (length (filter (is_finished True) (calls s))))
     \<and> failedCount (bst s) = int64_of (worker_failures evs + int (length (filter (is_finished False) (calls s))))"

definition never_fails :: "bench_env \<Rightarrow> bool" where
  "never_fails env \<longleftrightarrow> (\<forall>i. WriteErr env i = None)"

definition summary_view :: "accum \<Rightarrow> string \<times> string \<times> string \<times> int \<times> int \<times> int \<times> int \<times> int" where
  "summary_view a = (let s = summary a in (rs_RunID s, Library s, Scenario s, StartTime s, EndTime s, rs_Enqueued s, rs_Completed s, rs_Failed s))"

definition fresh_bench :: "bench \<Rightarrow> bool" where
  "fresh_bench b \<longleftrightarrow> rec_open (recorder b) \<and> rec_lines (recorder b) = [] \<and> enqueueCount b = 0 \<and> completedCount b = 0 \<and> failedCount b = 0"

definition reads_back :: "(string \<Rightarrow> goerr + int) \<Rightarrow> bench_env \<Rightarrow> bool" where
  "reads_back parse_time env \<longleftrightarrow> (\<forall>i. parse_time (fmt_time env (Now env i)) = Inr (Now env i) \<and> Now env i \<noteq> 0)"

definition worker_failed :: "rawEvent \<Rightarrow> bool" where
  "worker_failed e \<longleftrightarrow> ev_Kind e = ''job_failed'' \<and> jget (ev_Fields e) ''stage'' = None"

definition sample_env :: bench_env where
  "sample_env = \<lparr>fmt_time = dec_of_int, Now = (\<lambda>i. int i + 1), WriteErr = (\<lambda>i. None), select_pick = (\<lambda>i. True),
     tenant_String = (\<lambda>u. dec_of_nat (unat u))\<rparr>"

definition sample_ops :: "(unit, nat) harness_ops" where
  "sample_ops = \<lparr>op_Register = (\<lambda>k f h. (None, h)), op_Start = (\<lambda>h. (None, h)),
     op_Enqueue = (\<lambda>ctx t k p h. (Inr (''bench:'' @ dec_of_nat (h + 1)), h + 1)), op_Stop = (\<lambda>h. (Returned None, h))\<rparr>"

definition sample_gen :: "nat gen_env" where
  "sample_gen = \<lparr>ge_rng = sample_rng, ge_PCG = (\<lambda>a b. 0), ge_pool = pool_of 1, ge_wakes = [Tick 50000000, Done], ge_sends = []\<rparr>"

definition sample_bench :: bench where
  "sample_bench = \<lparr>recorder = \<lparr>runID = ''r'', rec_path = ''results/r.jsonl'', rec_lines = [], rec_open = True\<rparr>, enqueueCount = 0,
     completedCount = 0, failedCount = 0, clock_ix = 0, write_ix = 0\<rparr>"

definition sample_cfg :: RunnerConfig where
  "sample_cfg = \<lparr>rc_Library = ''platlib'', rc_Spec = (base_spec ''notify_latency'' 10 1 20 5)\<lparr>JobMix := [job_class ''entity_update'' 1 0 0 0 0]\<rparr>,
     EnqueueConcurrency = 0, DrainTimeout = 0, ResourceSampleInterval = 0\<rparr>"

definition sample_acts :: "action list" where
  "sample_acts = [Take Background 0, Return 0, Log 0, Deliver Background (sample_job 0 ''''), Sample 9 1 1, Finish 0, LogCall 0]"

definition sample_run :: "run_result \<times> nat run_state" where
  "sample_run = Run_bench sample_env sample_gen sample_ops (\<lambda>k. ()) [''entity_update''] sample_acts [] sample_cfg sample_bench 0"

definition outcome_kind :: "goerr option \<Rightarrow> string" where
  "outcome_kind err = (case err of None \<Rightarrow> KindJobCompleted | Some e \<Rightarrow> KindJobFailed)"


section \<open>Facts\<close>

lemma count_update:
  assumes "i < length xs"
  shows "int (length (filter P (xs[i := y]))) = int (length (filter P xs)) - (if P (xs ! i) then 1 else 0) + (if P y then 1 else 0)"
proof -
  have "xs = take i xs @ xs ! i # drop (Suc i) xs" using assms by (rule id_take_nth_drop)
  then have "int (length (filter P xs)) = int (length (filter P (take i xs @ xs ! i # drop (Suc i) xs)))" by simp
  then show ?thesis using assms by (simp add: upd_conv_take_nth_drop)
qed

lemma count_remove:
  assumes "i < length xs"
  shows "int (length (filter P (take i xs))) + int (length (filter P (drop (Suc i) xs))) = int (length (filter P xs)) - (if P (xs ! i) then 1 else 0)"
proof -
  have "xs = take i xs @ xs ! i # drop (Suc i) xs" using assms by (rule id_take_nth_drop)
  then have "int (length (filter P xs)) = int (length (filter P (take i xs @ xs ! i # drop (Suc i) xs)))" by simp
  then show ?thesis by simp
qed

lemma n_kind_simps [simp]:
  "n_kind k [] = 0" "n_kind k (es @ fs) = n_kind k es + n_kind k fs" "n_kind k [e] = (if Kind e = k then 1 else 0)"
  "worker_failures [] = 0" "worker_failures (es @ fs) = worker_failures es + worker_failures fs"
  "worker_failures [e] = (if Kind e = KindJobFailed \<and> jget (Fields e) ''stage'' = None then 1 else 0)"
  by (simp_all add: n_kind_def worker_failures_def)

lemma rec_Record_ok:
  assumes "never_fails env" "rec_open (recorder b)"
  shows "rec_Record env k fs b =
    (None, b\<lparr>clock_ix := Suc (clock_ix b), write_ix := Suc (write_ix b),
       recorder := (recorder b)\<lparr>rec_lines := rec_lines (recorder b) @
         [marshal_Event (fmt_time env) \<lparr>RunID = runID (recorder b), Timestamp = Now env (clock_ix b), Kind = k, Fields = fs\<rparr>]\<rparr>\<rparr>)"
  using assms by (simp add: rec_Record_def time_Now_def Record_def never_fails_def)

text \<open>The two ways a step changes the tally: one event recorded, or a counter and the goroutine that moved it.\<close>

lemma tally_record:
  fixes s :: "'h run_state"
  assumes "tally env r0 evs s" "never_fails env" "rec_open r0" "distinct (map fst fs)" "k \<noteq> KindRunStart" "k \<noteq> KindRunEnd"
    and b: "recorder b = recorder (bst s)" "enqueueCount b = enqueueCount (bst s)" "completedCount b = completedCount (bst s)"
      "failedCount b = failedCount (bst s)"
    and n: "int (length (filter is_enqueued (enqs s'))) = int (length (filter is_enqueued (enqs s))) - (if k = KindJobEnqueued then 1 else 0)"
      "int (length (filter (is_finished True) (calls s'))) = int (length (filter (is_finished True) (calls s))) - (if k = KindJobCompleted then 1 else 0)"
      "int (length (filter (is_finished False) (calls s'))) = int (length (filter (is_finished False) (calls s)))
         - (if k = KindJobFailed \<and> jget fs ''stage'' = None then 1 else 0)"
    and s': "bst s' = snd (rec_Record env k fs b)"
  shows "\<exists>e. tally env r0 (evs @ [e]) s'"
proof -
  let ?e = "\<lparr>RunID = runID r0, Timestamp = Now env (clock_ix b), Kind = k, Fields = fs\<rparr>"
  have o: "rec_open (recorder b)" using assms(1,3) b(1) by (simp add: tally_def)
  have r: "recorder b = r0\<lparr>rec_lines := rec_lines r0 @ map (marshal_Event (fmt_time env)) evs\<rparr>"
    using assms(1) b(1) by (simp add: tally_def)
  have g: "good_event env (runID r0) ?e" using assms(4) by (auto simp: good_event_def)
  have j: "job_event ?e" using assms(5,6) by (simp add: job_event_def)
  have "tally env r0 (evs @ [?e]) s'"
    using assms(1) g j n unfolding tally_def s' rec_Record_ok [OF assms(2) o]
    by (simp add: b(2-4) r)
  then show ?thesis by blast
qed

lemma tally_same:
  assumes "tally env r0 evs s" "recorder (bst s') = recorder (bst s)"
    and "\<And>n. enqueueCount (bst s) = int64_of (n + int (length (filter is_enqueued (enqs s)))) \<Longrightarrow>
      enqueueCount (bst s') = int64_of (n + int (length (filter is_enqueued (enqs s'))))"
    and "\<And>n. completedCount (bst s) = int64_of (n + int (length (filter (is_finished True) (calls s)))) \<Longrightarrow>
      completedCount (bst s') = int64_of (n + int (length (filter (is_finished True) (calls s'))))"
    and "\<And>n. failedCount (bst s) = int64_of (n + int (length (filter (is_finished False) (calls s)))) \<Longrightarrow>
      failedCount (bst s') = int64_of (n + int (length (filter (is_finished False) (calls s'))))"
  shows "tally env r0 evs s'"
  using assms(1,2) assms(3-5) unfolding tally_def by simp

lemma tally_nothing: "tally env r0 evs s \<Longrightarrow> \<exists>new. tally env r0 (evs @ new) s"
  by (rule exI [of _ "[]"]) simp

lemmas job_kinds_neq = KindRunStart_def KindRunEnd_def KindJobEnqueued_def KindJobStarted_def KindJobCompleted_def
  KindJobFailed_def KindResourceSample_def

lemma tally_Take:
  fixes s :: "'h run_state"
  assumes "tally env r0 evs s" "never_fails env" "rec_open r0" "a = Take ctx i"
  shows "\<exists>new. tally env r0 (evs @ new) (exec_action env ops a s)"
proof -
  note log = tally_record [OF assms(1-3)]
  show ?thesis
  proof (cases "i < length (enqs s) \<and> enqs s ! i = Idle \<and> reqs s \<noteq> []")
    case True
    then obtain q qs where q: "reqs s = q # qs" by (cases "reqs s") auto
    obtain res h where h: "op_Enqueue ops ctx (req_TenantID q) (req_Kind q) (req_Payload q) (hst s) = (res, h)" by fastforce
    have "tally env r0 evs (exec_action env ops a s)"
      using True by (intro tally_same [OF assms(1)])
        (simp_all add: assms(4) exec_action_def enqueuer_take_def q h time_Now_def count_update)
    then show ?thesis by (rule tally_nothing)
  qed (use tally_nothing [OF assms(1)] in \<open>auto simp: assms(4) exec_action_def enqueuer_take_def\<close>)
qed

lemma tally_Return:
  fixes s :: "'h run_state"
  assumes "tally env r0 evs s" "never_fails env" "rec_open r0" "a = Return i"
  shows "\<exists>new. tally env r0 (evs @ new) (exec_action env ops a s)"
proof -
  note log = tally_record [OF assms(1-3)]
  show ?thesis
  proof (cases "\<exists>q res t. i < length (enqs s) \<and> enqs s ! i = Called q res t")
    case True
    then obtain q res t where c: "i < length (enqs s)" "enqs s ! i = Called q res t" by blast
    show ?thesis
    proof (cases res)
      case (Inl e)
      have "\<exists>x. tally env r0 (evs @ [x]) (exec_action env ops a s)"
        by (rule log [of "enqueue_failed_fields env q e" KindJobFailed "bst s"])
           (use c in \<open>simp_all add: Inl assms(4) exec_action_def enqueuer_return_def enqueue_failed_fields_def job_kinds_neq count_update\<close>)
      then show ?thesis by blast
    next
      case (Inr j)
      have "tally env r0 evs (exec_action env ops a s)"
        using c by (intro tally_same [OF assms(1)])
          (simp_all add: assms(4) Inr exec_action_def enqueuer_return_def time_Now_def count_update int64_of_add add.assoc)
      then show ?thesis by (rule tally_nothing)
    qed
  qed (use tally_nothing [OF assms(1)] in \<open>auto simp: assms(4) exec_action_def split: enqueuer.split\<close>)
qed

lemma tally_Log:
  fixes s :: "'h run_state"
  assumes "tally env r0 evs s" "never_fails env" "rec_open r0" "a = Log i"
  shows "\<exists>new. tally env r0 (evs @ new) (exec_action env ops a s)"
proof -
  note log = tally_record [OF assms(1-3)]
  show ?thesis
  proof (cases "\<exists>q j t t'. i < length (enqs s) \<and> enqs s ! i = Enqueued q j t t'")
    case True
    then obtain q j t t' where c: "i < length (enqs s)" "enqs s ! i = Enqueued q j t t'" by blast
    have "\<exists>x. tally env r0 (evs @ [x]) (exec_action env ops a s)"
      by (rule log [of "enqueued_fields env q j t t'" KindJobEnqueued "bst s"])
         (use c in \<open>simp_all add: assms(4) exec_action_def enqueued_fields_def job_kinds_neq count_update\<close>)
    then show ?thesis by blast
  qed (use tally_nothing [OF assms(1)] in \<open>auto simp: assms(4) exec_action_def split: enqueuer.split\<close>)
qed

lemma tally_Deliver:
  fixes s :: "'h run_state"
  assumes "tally env r0 evs s" "never_fails env" "rec_open r0" "a = Deliver ctx job"
  shows "\<exists>new. tally env r0 (evs @ new) (exec_action env ops a s)"
proof -
  note log = tally_record [OF assms(1-3)]
  have "\<exists>x. tally env r0 (evs @ [x]) (exec_action env ops a s)"
    by (rule log [of "job_fields env job @ [(''started_at_ns'', JInt (UnixNano (Now env (clock_ix (bst s)))))]"
            KindJobStarted "(bst s)\<lparr>clock_ix := Suc (clock_ix (bst s))\<rparr>"])
       (simp_all add: assms(4) exec_action_def worker_begin_def time_Now_def job_fields_def job_kinds_neq)
  then show ?thesis by blast
qed

lemma tally_Finish:
  fixes s :: "'h run_state"
  assumes "tally env r0 evs s" "never_fails env" "rec_open r0" "a = Finish i"
  shows "\<exists>new. tally env r0 (evs @ new) (exec_action env ops a s)"
proof -
  note log = tally_record [OF assms(1-3)]
  show ?thesis
  proof (cases "\<exists>job err t. i < length (calls s) \<and> calls s ! i = InWork job err t")
    case True
    then obtain job err t where c: "i < length (calls s)" "calls s ! i = InWork job err t" by blast
    have "tally env r0 evs (exec_action env ops a s)"
      using c by (intro tally_same [OF assms(1)])
        (simp_all add: assms(4) exec_action_def worker_count_def time_Now_def count_update int64_of_add add.assoc split: option.split)
    then show ?thesis by (rule tally_nothing)
  qed (use tally_nothing [OF assms(1)] in \<open>auto simp: assms(4) exec_action_def split: call.split\<close>)
qed

lemma tally_LogCall:
  fixes s :: "'h run_state"
  assumes "tally env r0 evs s" "never_fails env" "rec_open r0" "a = LogCall i"
  shows "\<exists>new. tally env r0 (evs @ new) (exec_action env ops a s)"
proof -
  note log = tally_record [OF assms(1-3)]
  show ?thesis
  proof (cases "\<exists>job err dc. i < length (calls s) \<and> calls s ! i = Finished job err dc")
    case True
    then obtain job err d t where c: "i < length (calls s)" "calls s ! i = Finished job err (d, t)" by auto
    let ?fs = "job_fields env job @ [(''duration_ms'', JInt (Milliseconds d)), (''completed_at_ns'', JInt (UnixNano t))]"
    have "\<exists>x. tally env r0 (evs @ [x]) (exec_action env ops a s)"
    proof (cases err)
      case None
      show ?thesis
        by (rule log [of ?fs KindJobCompleted "bst s"])
           (use c in \<open>simp_all add: None assms(4) exec_action_def worker_record_def job_fields_def job_kinds_neq count_remove\<close>)
    next
      case (Some e)
      show ?thesis
        by (rule log [of "?fs @ [(''error_class'', JStr (error_class e)), (''error_message'', JStr (error_text e))]" KindJobFailed "bst s"])
           (use c in \<open>simp_all add: Some assms(4) exec_action_def worker_record_def job_fields_def job_kinds_neq count_remove\<close>)
    qed
    then show ?thesis by blast
  qed (use tally_nothing [OF assms(1)] in \<open>auto simp: assms(4) exec_action_def split: call.split\<close>)
qed

lemma tally_Sample:
  fixes s :: "'h run_state"
  assumes "tally env r0 evs s" "never_fails env" "rec_open r0" "a = Sample g sys heap"
  shows "\<exists>new. tally env r0 (evs @ new) (exec_action env ops a s)"
proof -
  note log = tally_record [OF assms(1-3)]
  have "\<exists>x. tally env r0 (evs @ [x]) (exec_action env ops a s)"
    unfolding assms(4) exec_action_def action.case
    by (rule log [OF _ _ _ refl refl refl refl, of _ KindResourceSample])
       (simp_all add: sampler_tick_def job_kinds_neq)
  then show ?thesis by blast
qed

lemma tally_step:
  assumes "tally env r0 evs s" "never_fails env" "rec_open r0"
  shows "\<exists>new. tally env r0 (evs @ new) (exec_action env ops a s)"
  by (cases a) (rule tally_Take [OF assms] tally_Return [OF assms] tally_Log [OF assms] tally_Deliver [OF assms] tally_Finish [OF assms]
      tally_LogCall [OF assms] tally_Sample [OF assms]; assumption)+

interpretation run_tally: invariant_system "exec_action env ops"
    "\<lambda>s. never_fails env \<and> rec_open r0 \<and> (\<exists>evs. tally env r0 evs s)" for env ops r0
  by unfold_locales (metis tally_step)

lemma tally_steps:
  "tally env r0 evs s \<Longrightarrow> never_fails env \<Longrightarrow> rec_open r0 \<Longrightarrow> \<exists>all. tally env r0 all (exec_actions env ops as s)"
  unfolding exec_actions_def using run_tally.run_inv by blast

lemma register_kinds_all:
  "register_kinds reg fn ks h =
     (case register_all reg (map (\<lambda>k. (k, fn k)) ks) h of
        (None, h') \<Rightarrow> (None, h')
      | (Some e, h') \<Rightarrow> (fst (register_kinds reg fn ks h), h'))"
  by (induction reg fn ks h rule: register_kinds.induct) (auto split: prod.split option.split)

context harness begin

lemma setup_workers:
  assumes "\<not> running h" "worker_of h = Map.empty" "distinct ks"
  shows "\<exists>h'. register_kinds register fn ks h = (None, h') \<and> \<not> running h'
    \<and> worker_of h' = (\<lambda>k. if k \<in> set ks then Some (fn k) else None)"
proof -
  have d: "distinct (map fst (map (\<lambda>k. (k, fn k)) ks))" using assms(3) by (simp add: comp_def)
  obtain h' where h': "register_all register (map (\<lambda>k. (k, fn k)) ks) h = (None, h')" "\<not> running h'"
      "worker_of h' = worker_of h ++ map_of (map (\<lambda>k. (k, fn k)) ks)"
    using register_all_distinct [OF assms(1) d] assms(2) by auto
  have "map_of (map (\<lambda>k. (k, fn k)) ks) = (\<lambda>k. if k \<in> set ks then Some (fn k) else None)"
    by (induction ks) (auto simp: fun_eq_iff)
  then show ?thesis using h' assms(2) by (subst register_kinds_all) simp
qed

lemma setup_started:
  assumes "op_Register ops = register" "op_Start ops = start" "\<not> running h" "worker_of h = Map.empty" "distinct ks"
    and "Run_setup env ops fn ks c b h = (None, b1, h1)"
  shows "running h1 \<and> worker_of h1 = (\<lambda>k. if k \<in> set ks then Some (fn k) else None)"
proof -
  obtain h' where h': "register_kinds register fn ks h = (None, h')"
      "worker_of h' = (\<lambda>k. if k \<in> set ks then Some (fn k) else None)"
    using setup_workers [OF assms(3-5), of fn] by blast
  have "start h' = (None, h1)"
    using assms(6) by (auto simp: Run_setup_def assms(1,2) h'(1) split: prod.splits option.splits)
  from start_runs [OF this] show ?thesis using h'(2) by simp
qed

end

lemma asInt64_JInt: "\<bar>i\<bar> \<le> 2 ^ 53 \<Longrightarrow> asInt64 (Some (JInt i)) = Some i"
  by (simp add: asInt64_def JInt_def f64_int trunc_int64_def in_int64_def) arith

lemma job_event_view: "job_event e \<Longrightarrow> summary_view (analyze_event (raw_of e) a) = summary_view a"
  by (simp add: job_event_def analyze_event_def raw_of_def summary_view_def KindRunStart_def KindRunEnd_def Let_def
      on_job_enqueued_def on_job_started_def on_job_completed_def on_job_failed_def on_resource_sample_def
      split: option.split)

lemma job_events_view: "list_all job_event evs \<Longrightarrow> summary_view (fold analyze_event (map raw_of evs) a) = summary_view a"
  by (induction evs arbitrary: a) (simp_all add: job_event_view)

lemma tally_bounds: "0 \<le> n_kind k evs \<and> n_kind k evs \<le> int (length evs)"
    "0 \<le> worker_failures evs \<and> worker_failures evs \<le> int (length evs)"
  by (simp_all add: n_kind_def worker_failures_def)

lemma run_prefix_view:
  assumes "list_all job_event evs" "KindRunStart = Kind e0" "distinct (map fst (Fields e0))" "Fields e0 = run_start_fields c"
  shows "summary_view (fold analyze_event (map raw_of (e0 # evs)) init_accum) =
    (RunID e0, rc_Library c, sp_Name (rc_Spec c), Timestamp e0, 0, 0, 0, 0)"
proof -
  have k: "Kind e0 = ''run_start''" using assms(2) by (simp add: KindRunStart_def)
  have f: "jget (sort_key fst (Fields e0)) ''library'' = Some (JStr (rc_Library c))"
    "jget (sort_key fst (Fields e0)) ''scenario'' = Some (JStr (sp_Name (rc_Spec c)))"
    using jget_sort [OF assms(3)] by (simp_all add: assms(4) run_start_fields_def Let_def)
  have "summary_view (fold analyze_event (map raw_of (e0 # evs)) init_accum) = summary_view (analyze_event (raw_of e0) init_accum)"
    using assms(1) by (simp add: job_events_view)
  also have "\<dots> = (RunID e0, rc_Library c, sp_Name (rc_Spec c), Timestamp e0, 0, 0, 0, 0)"
    by (simp add: analyze_event_def raw_of_def k on_run_start_def str_field_def f summary_view_def init_accum_def zero_RunSummary_def)
  finally show ?thesis .
qed

lemma run_file_names:
  assumes "list_all job_event evs" "KindRunStart = Kind e0" "KindRunEnd = Kind e1" "distinct (map fst (Fields e0))" "Fields e0 = run_start_fields c"
  shows "\<exists>n. summary_view (fold analyze_event (map raw_of (e0 # evs @ [e1])) init_accum) =
    (RunID e0, rc_Library c, sp_Name (rc_Spec c), Timestamp e0, Timestamp e1, n)"
proof -
  define a where "a = fold analyze_event (map raw_of (e0 # evs)) init_accum"
  have "fold analyze_event (map raw_of (e0 # evs @ [e1])) init_accum = analyze_event (raw_of e1) a" by (simp add: a_def)
  moreover have "Kind e1 = ''run_end''" using assms(3) by (simp add: KindRunEnd_def)
  ultimately show ?thesis
    using run_prefix_view [OF assms(1,2,4,5)] unfolding a_def [symmetric]
    by (simp add: analyze_event_def raw_of_def on_run_end_def summary_view_def Let_def)
qed

lemma run_file_summary:
  assumes "list_all job_event evs" "KindRunStart = Kind e0" "KindRunEnd = Kind e1"
    and "distinct (map fst (Fields e0))" "Fields e0 = run_start_fields c"
    and "Fields e1 = [(''enqueued'', JInt n1), (''completed'', JInt n2), (''failed'', JInt n3)]"
    and "\<bar>n1\<bar> \<le> 2 ^ 53" "\<bar>n2\<bar> \<le> 2 ^ 53" "\<bar>n3\<bar> \<le> 2 ^ 53"
  shows "summary_view (fold analyze_event (map raw_of (e0 # evs @ [e1])) init_accum) =
    (RunID e0, rc_Library c, sp_Name (rc_Spec c), Timestamp e0, Timestamp e1, n1, n2, n3)"
proof -
  define a where "a = fold analyze_event (map raw_of (e0 # evs)) init_accum"
  note a = run_prefix_view [OF assms(1,2,4,5), folded a_def]
  have k: "Kind e1 = ''run_end''" using assms(3) by (simp add: KindRunEnd_def)
  have d: "distinct (map fst (Fields e1))" by (simp add: assms(6))
  have g: "jget (sort_key fst (Fields e1)) ''enqueued'' = Some (JInt n1)" "jget (sort_key fst (Fields e1)) ''completed'' = Some (JInt n2)"
    "jget (sort_key fst (Fields e1)) ''failed'' = Some (JInt n3)"
    unfolding jget_sort [OF d] by (simp_all add: assms(6))
  note n = asInt64_JInt [OF assms(7)] asInt64_JInt [OF assms(8)] asInt64_JInt [OF assms(9)]
  have "fold analyze_event (map raw_of (e0 # evs @ [e1])) init_accum = analyze_event (raw_of e1) a" by (simp add: a_def)
  moreover have "summary_view (analyze_event (raw_of e1) a) = (RunID e0, rc_Library c, sp_Name (rc_Spec c), Timestamp e0, Timestamp e1, n1, n2, n3)"
    using a by (simp add: analyze_event_def raw_of_def k on_run_end_def g n summary_view_def Let_def)
  ultimately show ?thesis by simp
qed

lemma Run_bench_None:
  assumes "Run_bench env ge ops fn order acts late c0 b h = (RunReturns None, s)"
  obtains b1 h1 out h2 s1 where "Run_setup env ops fn order (with_defaults c0) b h = (None, b1, h1)"
    "s1 = exec_actions env ops (filter worker_action late)
       ((exec_actions env ops acts (start_state (with_defaults c0) out b1 h1))\<lparr>hst := h2\<rparr>)"
    "list_all (\<lambda>e. e = Idle) (enqs (exec_actions env ops acts (start_state (with_defaults c0) out b1 h1)))"
    "rec_Record env KindRunEnd (run_end_fields (bst s1)) (bst s1) = (None, bst s)" "s = s1\<lparr>bst := bst s\<rparr>"
  using assms
  by (auto simp: Run_bench_def Run_finish_def Let_def split: prod.splits option.splits if_splits gen_result.splits stop_result.splits)

lemma worker_action_enqs: "worker_action a \<Longrightarrow> enqs (exec_action env ops a s) = enqs s"
  by (cases a) (auto simp: worker_action_def exec_action_def split: prod.split call.split)

lemma worker_actions_enqs: "list_all worker_action as \<Longrightarrow> enqs (exec_actions env ops as s) = enqs s"
  unfolding exec_actions_def by (induction as arbitrary: s) (simp_all add: worker_action_enqs)

lemma Run_setup_records:
  assumes "Run_setup env ops fn order c b h = (None, b1, h1)"
  shows "rec_Record env KindRunStart (run_start_fields c) b = (None, b1)"
  using assms by (auto simp: Run_setup_def split: prod.splits option.splits)

lemma rec_Record_lines:
  assumes "rec_Record env k fs b = (e, b')" "never_fails env" "rec_open (recorder b)"
  shows "rec_lines (recorder b') = rec_lines (recorder b) @
    [marshal_Event (fmt_time env) \<lparr>RunID = runID (recorder b), Timestamp = Now env (clock_ix b), Kind = k, Fields = fs\<rparr>]"
  using assms(1) unfolding rec_Record_ok [OF assms(2,3)] by auto

text \<open>The file of a run that ended without an error; worker calls left behind may have moved a counter only.\<close>

lemma run_file:
  assumes "never_fails env" "fresh_bench b" "Run_bench env ge ops fn order acts late c b h = (RunReturns None, s)"
  obtains e0 evs e1 where "rec_lines (recorder (bst s)) = map (marshal_Event (fmt_time env)) (e0 # evs @ [e1])"
    "list_all (good_event env (runID (recorder b))) (e0 # evs @ [e1])" "list_all job_event evs"
    "Kind e0 = KindRunStart" "Fields e0 = run_start_fields (with_defaults c)" "Kind e1 = KindRunEnd"
    "Fields e1 = [(''enqueued'', JInt (int64_of (n_kind KindJobEnqueued evs))), (''completed'', JInt (int64_of (n_kind KindJobCompleted evs + int (length (filter (is_finished True) (calls s)))))),
       (''failed'', JInt (int64_of (worker_failures evs + int (length (filter (is_finished False) (calls s))))))]"
proof -
  obtain b1 h1 out h2 s1 where *: "Run_setup env ops fn order (with_defaults c) b h = (None, b1, h1)"
    "s1 = exec_actions env ops (filter worker_action late)
       ((exec_actions env ops acts (start_state (with_defaults c) out b1 h1))\<lparr>hst := h2\<rparr>)"
    "list_all (\<lambda>e. e = Idle) (enqs (exec_actions env ops acts (start_state (with_defaults c) out b1 h1)))"
    "rec_Record env KindRunEnd (run_end_fields (bst s1)) (bst s1) = (None, bst s)" "s = s1\<lparr>bst := bst s\<rparr>"
    by (rule Run_bench_None [OF assms(3)])
  let ?e0 = "\<lparr>RunID = runID (recorder b), Timestamp = Now env (clock_ix b), Kind = KindRunStart, Fields = run_start_fields (with_defaults c)\<rparr>"
  have o: "rec_open (recorder b)" "rec_lines (recorder b) = []" using assms(2) by (auto simp: fresh_bench_def)
  have b1: "recorder b1 = (recorder b)\<lparr>rec_lines := [marshal_Event (fmt_time env) ?e0]\<rparr>"
    "enqueueCount b1 = 0" "completedCount b1 = 0" "failedCount b1 = 0"
    using Run_setup_records [OF *(1)] assms(2) unfolding rec_Record_ok [OF assms(1) o(1)] by (auto simp: o fresh_bench_def)
  have "tally env (recorder b1) [] (start_state (with_defaults c) out b1 h1)"
    by (simp add: tally_def start_state_def b1 int64_of_def)
  from tally_steps [OF this assms(1)] obtain n1 where
    "tally env (recorder b1) n1 (exec_actions env ops acts (start_state (with_defaults c) out b1 h1))" using o b1 by auto
  then have "tally env (recorder b1) n1 ((exec_actions env ops acts (start_state (with_defaults c) out b1 h1))\<lparr>hst := h2\<rparr>)"
    by (simp add: tally_def)
  from tally_steps [OF this assms(1)] obtain evs where t: "tally env (recorder b1) evs s1" using o b1 *(2) by fastforce
  let ?e1 = "\<lparr>RunID = runID (recorder b), Timestamp = Now env (clock_ix (bst s1)), Kind = KindRunEnd, Fields = run_end_fields (bst s1)\<rparr>"
  have idle: "filter is_enqueued (enqs s1) = []"
    using *(3) unfolding *(2) by (subst worker_actions_enqs) (auto simp: list_all_iff filter_empty_conv)
  have c1: "calls s1 = calls s" using *(5) by (metis run_state.select_convs(3) run_state.surjective run_state.update_convs(5))
  have r: "recorder (bst s1) = (recorder b)\<lparr>rec_lines := marshal_Event (fmt_time env) ?e0 # map (marshal_Event (fmt_time env)) evs\<rparr>"
    using t by (simp add: tally_def b1)
  have "rec_open (recorder (bst s1))" using r o by simp
  from rec_Record_lines [OF *(4) assms(1) this]
  have "rec_lines (recorder (bst s)) = map (marshal_Event (fmt_time env)) (?e0 # evs @ [?e1])"
    by (simp add: r)
  moreover have "list_all (good_event env (runID (recorder b))) (?e0 # evs @ [?e1])"
    using t by (auto simp: tally_def b1 good_event_def run_start_fields_def run_end_fields_def Let_def)
  moreover have "run_end_fields (bst s1) = [(''enqueued'', JInt (int64_of (n_kind KindJobEnqueued evs))), (''completed'', JInt (int64_of (n_kind KindJobCompleted evs + int (length (filter (is_finished True) (calls s)))))),
       (''failed'', JInt (int64_of (worker_failures evs + int (length (filter (is_finished False) (calls s))))))]"
    using t idle c1 by (simp add: tally_def run_end_fields_def)
  moreover have "list_all job_event evs" using t by (simp add: tally_def)
  ultimately show ?thesis by (intro that [of ?e0 evs ?e1]) simp_all
qed

lemma decode_events:
  assumes "list_all (good_event env rid) evs" "\<forall>i. parse_time (fmt_time env (Now env i)) = Inr (Now env i)"
  shows "map (decode_line parse_time) (map Inr (map (marshal_Event (fmt_time env)) evs)) = map Inr (map raw_of evs)"
  using assms(1)
proof (induction evs)
  case (Cons e evs)
  then have "decode_line parse_time (Inr (marshal_Event (fmt_time env) e)) = Inr (raw_of e)"
    using assms(2) by (intro event_decodes) (auto simp: good_event_def)
  then show ?case using Cons by simp
qed simp

lemma raw_counts:
  "list_all (good_event env rid) evs \<Longrightarrow> int (count_kind k (map raw_of evs)) = n_kind k evs"
  "list_all (good_event env rid) evs \<Longrightarrow>
     int (length (filter (\<lambda>e. ev_Kind e = ''job_failed'' \<and> jget (ev_Fields e) ''stage'' = None) (map raw_of evs))) = worker_failures evs"
  by (induction evs) (auto simp: count_kind_def n_kind_def worker_failures_def raw_of_def good_event_def jget_sort KindJobFailed_def)

lemma with_defaults_keeps: "rc_Library (with_defaults c) = rc_Library c" "rc_Spec (with_defaults c) = rc_Spec c"
  by (simp_all add: with_defaults_def Let_def)

text \<open>C5: the numbers a run reports are the numbers of its events. Whatever the interleaving of the enqueue goroutines,
  the workers and the sampler, and whatever the harness does: if the run returns without an error, every line
  could be written and no worker call is left behind, then the results file is summarised without an
  error, under the library, scenario and run id of the configuration, and the counters of the
  summary are exactly the numbers of \<^verbatim>\<open>job_enqueued\<close>, \<^verbatim>\<open>job_completed\<close> and worker-side \<^verbatim>\<open>job_failed\<close> events in it. Files
  of more than \<open>2 ^ 53\<close> lines are excluded, where a \<^verbatim>\<open>float64\<close> cannot hold the count.\<close>

theorem run_summary_agrees:
  assumes "never_fails env" "fresh_bench b" "Run_bench env ge ops fn order acts late c b h = (RunReturns None, s)"
    and "calls s = []" "reads_back parse_time env" "length (rec_lines (recorder (bst s))) \<le> 2 ^ 53"
  shows "\<exists>sm es. analyzeReader parse_time None (map Inr (rec_lines (recorder (bst s)))) f = (sm, None)
     \<and> map (decode_line parse_time) (map Inr (rec_lines (recorder (bst s)))) = map Inr es
     \<and> rs_RunID sm = runID (recorder b) \<and> Library sm = rc_Library c \<and> Scenario sm = sp_Name (rc_Spec c)
     \<and> rs_Enqueued sm = int (count_kind ''job_enqueued'' es) \<and> rs_Completed sm = int (count_kind ''job_completed'' es)
     \<and> rs_Failed sm = int (length (filter worker_failed es))"
proof -
  obtain e0 evs e1 where f: "rec_lines (recorder (bst s)) = map (marshal_Event (fmt_time env)) (e0 # evs @ [e1])"
    "list_all (good_event env (runID (recorder b))) (e0 # evs @ [e1])" "list_all job_event evs"
    "Kind e0 = KindRunStart" "Fields e0 = run_start_fields (with_defaults c)" "Kind e1 = KindRunEnd"
    "Fields e1 = [(''enqueued'', JInt (int64_of (n_kind KindJobEnqueued evs))), (''completed'', JInt (int64_of (n_kind KindJobCompleted evs))),
       (''failed'', JInt (int64_of (worker_failures evs)))]"
    using run_file [OF assms(1-3)] assms(4) by auto
  let ?ls = "map Inr (rec_lines (recorder (bst s)))" and ?es = "map raw_of (e0 # evs @ [e1])"
  have dec: "map (decode_line parse_time) ?ls = map Inr ?es"
    using decode_events [OF f(2), of parse_time] assms(5) unfolding f(1) reads_back_def by blast
  have len: "int (length evs) \<le> 2 ^ 53" using assms(6) unfolding f(1) by simp
  have id: "int64_of (n_kind k evs) = n_kind k evs" "\<bar>n_kind k evs\<bar> \<le> 2 ^ 53" "int64_of (worker_failures evs) = worker_failures evs"
      "\<bar>worker_failures evs\<bar> \<le> 2 ^ 53" for k
    using tally_bounds(1) [of k evs] tally_bounds(2) [of evs] len by (auto simp: in_int64_def)
  let ?a = "fold analyze_event ?es init_accum"
  have v: "summary_view ?a = (RunID e0, rc_Library (with_defaults c), sp_Name (rc_Spec (with_defaults c)), Timestamp e0, Timestamp e1,
       n_kind KindJobEnqueued evs, n_kind KindJobCompleted evs, worker_failures evs)"
    using f(2,4,6) by (intro run_file_summary [OF f(3) _ _ _ f(5) f(7) [unfolded id] id(2) id(2) id(4)]) (simp_all add: good_event_def)
  have z: "Timestamp e0 \<noteq> 0" "Timestamp e1 \<noteq> 0" using f(2) assms(5) by (auto simp: good_event_def reads_back_def)
  have n: "int (count_kind ''job_enqueued'' ?es) = n_kind KindJobEnqueued evs" "int (count_kind ''job_completed'' ?es) = n_kind KindJobCompleted evs"
    "int (length (filter worker_failed ?es)) = worker_failures evs"
    using raw_counts(1) [OF f(2)] raw_counts(2) [OF f(2)] f(4,6)
    by (simp_all add: n_kind_def worker_failures_def worker_failed_def [abs_def] job_kinds_neq)
  have "\<exists>sm. analyzeReader parse_time None ?ls f = (sm, None) \<and> (rs_RunID sm, Library sm, Scenario sm, rs_Enqueued sm, rs_Completed sm, rs_Failed sm)
      = (RunID e0, rc_Library c, sp_Name (rc_Spec c), n_kind KindJobEnqueued evs, n_kind KindJobCompleted evs, worker_failures evs)"
    using v z unfolding analyzeReader_def scan_lines_ok [OF dec] with_defaults_keeps by (simp add: finish_summary_def summary_view_def Let_def)
  moreover have "RunID e0 = runID (recorder b)" using f(2) by (simp add: good_event_def)
  ultimately show ?thesis using dec n by (metis Pair_inject)
qed

lemma sample_run_ok: "fst sample_run = RunReturns None \<and> calls (snd sample_run) = [] \<and> length (rec_lines (recorder (bst (snd sample_run)))) = 6"
  by code_simp

lemma sample_env_ok: "never_fails sample_env" "fresh_bench sample_bench" "reads_back sample_time sample_env"
  by (simp_all add: never_fails_def sample_env_def fresh_bench_def sample_bench_def reads_back_def sample_time_def dec_of_int_def)

theorem run_summary_agrees_witness:
  "\<exists>sm. analyzeReader sample_time None (map Inr (rec_lines (recorder (bst (snd sample_run))))) ''r.jsonl'' = (sm, None)
     \<and> Library sm = ''platlib'' \<and> Scenario sm = ''notify_latency''"
proof -
  obtain s where s: "sample_run = (RunReturns None, s)" "calls s = []" "length (rec_lines (recorder (bst s))) = 6"
    using sample_run_ok by (metis prod.collapse)
  show ?thesis
    using run_summary_agrees [OF sample_env_ok(1,2) s(1) [unfolded sample_run_def] s(2) sample_env_ok(3), of "''r.jsonl''"] s(3)
    unfolding s(1) by (auto simp: sample_cfg_def base_spec_def)
qed

lemma run_file_analyzed:
  assumes "never_fails env" "fresh_bench b" "Run_bench env ge ops fn order acts late c b h = (RunReturns None, s)"
    and "reads_back parse_time env"
  shows "\<exists>sm. analyzeReader parse_time None (map Inr (rec_lines (recorder (bst s)))) f = (sm, None)
     \<and> rs_RunID sm = runID (recorder b) \<and> Library sm = rc_Library c \<and> Scenario sm = sp_Name (rc_Spec c)"
proof -
  obtain e0 evs e1 where f: "rec_lines (recorder (bst s)) = map (marshal_Event (fmt_time env)) (e0 # evs @ [e1])"
    "list_all (good_event env (runID (recorder b))) (e0 # evs @ [e1])" "list_all job_event evs"
    "Kind e0 = KindRunStart" "Fields e0 = run_start_fields (with_defaults c)" "Kind e1 = KindRunEnd"
    by (rule run_file [OF assms(1-3)])
  let ?es = "map raw_of (e0 # evs @ [e1])"
  have dec: "map (decode_line parse_time) (map Inr (rec_lines (recorder (bst s)))) = map Inr ?es"
    using decode_events [OF f(2), of parse_time] assms(4) unfolding f(1) reads_back_def by blast
  have g: "distinct (map fst (Fields e0))" "RunID e0 = runID (recorder b)" "Timestamp e0 \<noteq> 0" "Timestamp e1 \<noteq> 0"
    using f(2) assms(4) by (auto simp: good_event_def reads_back_def)
  obtain n where "summary_view (fold analyze_event ?es init_accum) =
      (RunID e0, rc_Library c, sp_Name (rc_Spec c), Timestamp e0, Timestamp e1, n)"
    using run_file_names [OF f(3) f(4,6) [symmetric] g(1) f(5)] unfolding with_defaults_keeps by blast
  then show ?thesis
    using g unfolding analyzeReader_def scan_lines_ok [OF dec] by (simp add: finish_summary_def summary_view_def Let_def)
qed


lemma Simulate_error_class:
  assumes "ctx_err ctx \<in> {Canceled, DeadlineExceeded}" "fst (Simulate ctx pick job) = Some e"
  shows "error_class e = FailWithError (job_Payload job)"
proof (cases "FailWithError (job_Payload job) = ''''")
  case True
  then have "e = ctx_err ctx"
    using assms(2) by (auto simp: Simulate_def select_timer_def Let_def split: if_splits option.splits)
  then show ?thesis using True assms(1) by (auto simp: error_class_def)
next
  case False
  then show ?thesis using assms(2) Simulate_injected [of job ctx pick] by (auto simp: error_class_def)
qed

lemma workerFn_events:
  assumes "never_fails env" "rec_open (recorder b)" "ctx_err ctx \<in> {Canceled, DeadlineExceeded}" "workerFn env ctx job b = (err, b')"
  shows "\<exists>e1 e2. recorder b' = (recorder b)\<lparr>rec_lines := rec_lines (recorder b) @ map (marshal_Event (fmt_time env)) [e1, e2]\<rparr>
     \<and> Kind e1 = KindJobStarted \<and> Kind e2 = outcome_kind err
     \<and> jget (Fields e1) ''job_id'' = Some (JStr (job_ID job)) \<and> jget (Fields e2) ''job_id'' = Some (JStr (job_ID job))
     \<and> jget (Fields e1) ''attempt'' = Some (JInt (job_Attempt job)) \<and> jget (Fields e2) ''attempt'' = Some (JInt (job_Attempt job))
     \<and> enqueueCount b' = enqueueCount b
     \<and> completedCount b' = (if err = None then int64_of (completedCount b + 1) else completedCount b)
     \<and> failedCount b' = (if err = None then failedCount b else int64_of (failedCount b + 1))
     \<and> (err \<noteq> None \<longrightarrow> jget (Fields e2) ''error_class'' = Some (JStr (FailWithError (job_Payload job))))"
proof -
  let ?t = "Now env (clock_ix b)" and ?i = "runID (recorder b)"
  let ?fs1 = "job_fields env job @ [(''started_at_ns'', JInt (UnixNano ?t))]"
  let ?fs2 = "job_fields env job @ [(''duration_ms'', JInt (Milliseconds (time_sub (Now env (Suc (Suc (clock_ix b)))) ?t))),
      (''completed_at_ns'', JInt (UnixNano (Now env (Suc (Suc (Suc (clock_ix b)))))))]"
  let ?fs3 = "\<lambda>e. ?fs2 @ [(''error_class'', JStr (error_class e)), (''error_message'', JStr (error_text e))]"
  let ?e1 = "\<lparr>RunID = ?i, Timestamp = Now env (Suc (clock_ix b)), Kind = KindJobStarted, Fields = ?fs1\<rparr>"
  let ?e2 = "\<lparr>RunID = ?i, Timestamp = Now env (Suc (Suc (Suc (Suc (clock_ix b))))), Kind = outcome_kind err,
      Fields = (case err of None \<Rightarrow> ?fs2 | Some e \<Rightarrow> ?fs3 e)\<rparr>"
  have err: "err = fst (Simulate ctx (select_pick env (Suc (Suc (clock_ix b)))) job)"
    using assms(4) by (auto simp: workerFn_def worker_begin_def time_Now_def rec_Record_ok [OF assms(1)] assms(2) Let_def split: prod.splits)
  have b': "b' = snd (workerFn env ctx job b)" using assms(4) by simp
  have cls: "error_class e = FailWithError (job_Payload job)" if "err = Some e" for e
    using Simulate_error_class [OF assms(3)] that unfolding err by blast
  note defs = workerFn_def worker_begin_def worker_count_def worker_record_def time_Now_def rec_Record_ok [OF assms(1)] assms(2) Let_def
    err [symmetric]
  show ?thesis
    by (rule exI [of _ ?e1], rule exI [of _ ?e2], cases err)
       (simp_all add: b' defs outcome_kind_def cls job_fields_def)
qed



lemma exec_actions_append: "exec_actions env ops (as @ bs) s = exec_actions env ops bs (exec_actions env ops as s)"
  by (simp add: exec_actions_def)

lemma exec_action_length: "length (enqs (exec_action env ops a s)) = length (enqs s)"
  by (cases a) (auto simp: exec_action_def enqueuer_take_def enqueuer_return_def time_Now_def
      split: list.split prod.split enqueuer.split sum.split call.split)

lemma exec_actions_length: "length (enqs (exec_actions env ops as s)) = length (enqs s)"
  unfolding exec_actions_def by (induction as arbitrary: s) (simp_all add: exec_action_length)

text \<open>Two turns bring an enqueue goroutine back to the channel.\<close>

lemma finish_enqueuer:
  assumes "i < length (enqs s)"
  shows "reqs (exec_actions env ops [Return i, Log i] s) = reqs s \<and> enqs (exec_actions env ops [Return i, Log i] s) = (enqs s)[i := Idle]"
proof -
  have "enqs s ! i = Idle \<Longrightarrow> (enqs s)[i := Idle] = enqs s" by (metis list_update_id)
  then show ?thesis
    using assms by (cases "enqs s ! i")
      (auto simp: exec_actions_def exec_action_def enqueuer_return_def time_Now_def split: sum.split)
qed

lemma finish_enqueuers:
  assumes "n \<le> length (enqs s)"
  shows "reqs (exec_actions env ops (concat (map (\<lambda>i. [Return i, Log i]) [0..<n])) s) = reqs s
    \<and> (\<forall>i < n. enqs (exec_actions env ops (concat (map (\<lambda>i. [Return i, Log i]) [0..<n])) s) ! i = Idle)"
  using assms
proof (induction n)
  case (Suc n)
  let ?s = "exec_actions env ops (concat (map (\<lambda>i. [Return i, Log i]) [0..<n])) s"
  have l: "n < length (enqs ?s)" using Suc.prems by (simp add: exec_actions_length)
  show ?case using Suc finish_enqueuer [OF l, of env ops] l
    by (auto simp: exec_actions_append exec_actions_length nth_list_update less_Suc_eq)
qed (simp add: exec_actions_def)

lemma drain_requests:
  assumes "enqs s \<noteq> []" "list_all (\<lambda>e. e = Idle) (enqs s)"
  shows "\<exists>as. reqs (exec_actions env ops as s) = [] \<and> list_all (\<lambda>e. e = Idle) (enqs (exec_actions env ops as s))"
  using assms
proof (induction "length (reqs s)" arbitrary: s)
  case 0
  then show ?case by (intro exI [of _ "[]"]) (simp add: exec_actions_def)
next
  case (Suc n)
  then obtain q qs where q: "reqs s = q # qs" by (cases "reqs s") auto
  let ?t = "exec_actions env ops [Take Background 0] s" and ?s = "exec_actions env ops [Take Background 0, Return 0, Log 0] s"
  have z: "0 < length (enqs s)" "enqs s ! 0 = Idle" using Suc.prems by (auto simp: list_all_length)
  then have t: "reqs ?t = qs" "\<exists>x. enqs ?t = (enqs s)[0 := x]"
    by (auto simp: exec_actions_def exec_action_def enqueuer_take_def q time_Now_def split: prod.split)
  have l: "0 < length (enqs ?t)" using z by (simp add: exec_actions_length)
  have e: "?s = exec_actions env ops [Return 0, Log 0] ?t" by (simp add: exec_actions_def)
  have "reqs ?s = qs" "enqs ?s = enqs s"
    using finish_enqueuer [OF l, of env ops] t z unfolding e by (auto simp: list_update_same_conv)
  then obtain as where "reqs (exec_actions env ops as ?s) = [] \<and> list_all (\<lambda>e. e = Idle) (enqs (exec_actions env ops as ?s))"
    using Suc.hyps(1) [of ?s] Suc.hyps(2) Suc.prems q by auto
  then show ?case by (metis exec_actions_append)
qed


end
