(* ===== verification/River_Adapter.thy ===== *)
theory River_Adapter
  imports Harness_Interface
begin

text \<open>
  The River adapter (\<^verbatim>\<open>internal/queue/river/adapter.go\<close>): harness life cycle, routing of kinds to queues, the
  single dispatching worker and how it classifies worker errors. River's client, its migrator and
  google/uuid are parameters (fields of \<open>river_env\<close> and \<open>river_deps\<close>); \<open>'w\<close> is the world they and the
  worker functions act on.
\<close>

section \<open>State\<close>

type_synonym 'w RiverWorkerFunc = "Context \<Rightarrow> Job \<Rightarrow> 'w \<Rightarrow> goerr option \<times> 'w"

record benchArgs =
  ba_TenantIDStr :: string
  ba_KindStr :: string
  ba_Payload :: JobPayload

definition Kind_benchArgs :: "benchArgs \<Rightarrow> string" where
  "Kind_benchArgs a = ''benchmark.job''"

definition marshal_benchArgs :: "benchArgs \<Rightarrow> json" where
  "marshal_benchArgs a =
     JObj [(''tenant_id'', JStr (ba_TenantIDStr a)), (''kind'', JStr (ba_KindStr a)),
           (''payload'', marshal_payload (ba_Payload a))]"

record RiverOptions =
  Router :: "(Kind \<Rightarrow> string) option"
  FetchCooldown :: Duration
  FetchPollInterval :: Duration

text \<open>\<open>river_Config\<close> is what \<^verbatim>\<open>river.NewClient\<close> is given, zero fields left out.\<close>

record river_Config =
  rc_Queues :: "(string \<times> int) list"
  rc_MaxAttempts :: int

record 'w RiverHarness =
  rv_cfg :: Config
  router :: "Kind \<Rightarrow> string"
  rv_pool_open :: bool
  client :: "river_Config option"
  rv_workers :: "(Kind \<times> 'w RiverWorkerFunc) list"
  rv_started :: bool

section \<open>Life cycle\<close>

text \<open>What the constructors of other packages answer.\<close>

record river_env =
  rv_connect_err :: "goerr option"
  new_migrator_err :: "goerr option"
  migrate_err :: "goerr option"

text \<open>The last component of the result says whether the pool is left open.\<close>

definition New_river :: "river_env \<Rightarrow> Config \<Rightarrow> RiverOptions \<Rightarrow> (goerr + 'w RiverHarness) \<times> bool" where
  "New_river env c o' =
     (case Validate c of
        Some e \<Rightarrow> (Inl (Errorf ''river adapter: '' e), False)
      | None \<Rightarrow>
          let rt = (case Router o' of None \<Rightarrow> DefaultRouter | Some r \<Rightarrow> r) in
          (case rv_connect_err env of
             Some e \<Rightarrow> (Inl (Errorf ''river adapter: connect postgres: '' e), False)
           | None \<Rightarrow>
               (case new_migrator_err env of
                  Some e \<Rightarrow> (Inl (Errorf ''river adapter: new migrator: '' e), False)
                | None \<Rightarrow>
                    (case migrate_err env of
                       Some e \<Rightarrow> (Inl (Errorf ''river adapter: migrate: '' e), False)
                     | None \<Rightarrow>
                         (Inr \<lparr>rv_cfg = c, router = rt, rv_pool_open = True, client = None,
                            rv_workers = [], rv_started = False\<rparr>, True)))))"

definition Register_river :: "Kind \<Rightarrow> 'w RiverWorkerFunc \<Rightarrow> 'w RiverHarness \<Rightarrow> goerr option \<times> 'w RiverHarness" where
  "Register_river kind fn h =
     (if rv_started h then (Some (ErrorsNew ''river adapter: Register after Start''), h)
      else if map_of (rv_workers h) kind \<noteq> None
      then (Some (ErrorQ ''river adapter: Kind '' kind '' already registered''), h)
      else (None, h\<lparr>rv_workers := rv_workers h @ [(kind, fn)]\<rparr>))"

text \<open>\<open>NewClient\<close> and \<open>client_Start\<close>: the errors of \<^verbatim>\<open>river.NewClient\<close> and \<^verbatim>\<open>client.Start\<close> for the configuration.\<close>

definition Start_river ::
    "(river_Config \<Rightarrow> goerr option) \<Rightarrow> (river_Config \<Rightarrow> goerr option) \<Rightarrow> 'w RiverHarness
     \<Rightarrow> goerr option \<times> 'w RiverHarness" where
  "Start_river NewClient client_Start h =
     (if rv_started h then (Some (ErrorsNew ''river adapter: Start called twice''), h)
      else
        let clientCfg = \<lparr>rc_Queues = map (\<lambda>(name, qc). (name, MaxWorkers qc)) (Queues (rv_cfg h)),
              rc_MaxAttempts = MaxAttempts (rv_cfg h)\<rparr>
        in case NewClient clientCfg of
             Some e \<Rightarrow> (Some (Errorf ''river adapter: new client: '' e), h)
           | None \<Rightarrow>
               (case client_Start clientCfg of
                  Some e \<Rightarrow> (Some (Errorf ''river adapter: start client: '' e), h)
                | None \<Rightarrow> (None, h\<lparr>client := Some clientCfg, rv_started := True\<rparr>)))"

text \<open>
  \<open>Insert\<close> and \<open>InsertMany\<close>: arguments and queue name in, the id of each inserted row out.
\<close>

record 'w river_deps =
  rv_uuid_String :: "UUID \<Rightarrow> string"
  rv_uuid_Parse :: "string \<Rightarrow> goerr + UUID"
  Insert :: "Context \<Rightarrow> benchArgs \<Rightarrow> string \<Rightarrow> 'w \<Rightarrow> (goerr + int) \<times> 'w"
  InsertMany :: "Context \<Rightarrow> (benchArgs \<times> string) list \<Rightarrow> 'w \<Rightarrow> (goerr + int list) \<times> 'w"

definition args_of :: "'w river_deps \<Rightarrow> UUID \<Rightarrow> Kind \<Rightarrow> JobPayload \<Rightarrow> benchArgs" where
  "args_of d tenantID kind p = \<lparr>ba_TenantIDStr = rv_uuid_String d tenantID, ba_KindStr = kind, ba_Payload = p\<rparr>"

definition Enqueue_river ::
    "'w river_deps \<Rightarrow> 'w RiverHarness \<Rightarrow> Context \<Rightarrow> UUID \<Rightarrow> Kind \<Rightarrow> JobPayload \<Rightarrow> 'w \<Rightarrow> (goerr + JobID) \<times> 'w" where
  "Enqueue_river d h ctx tenantID kind p w =
     (let args = args_of d tenantID kind p; q = router h kind in
      if client h = None then (Inl (ErrorsNew ''river adapter: Enqueue before Start''), w)
      else case Insert d ctx args q w of
             (Inl e, w') \<Rightarrow> (Inl e, w')
           | (Inr i, w') \<Rightarrow> (Inr (dec_of_int i), w'))"

definition EnqueueMany_river ::
    "'w river_deps \<Rightarrow> 'w RiverHarness \<Rightarrow> Context \<Rightarrow> EnqueueRequest list \<Rightarrow> 'w \<Rightarrow> (goerr + JobID list) \<times> 'w" where
  "EnqueueMany_river d h ctx jobs w =
     (if client h = None then (Inl (ErrorsNew ''river adapter: EnqueueMany before Start''), w)
      else
        let params = map (\<lambda>j. (args_of d (req_TenantID j) (req_Kind j) (req_Payload j), router h (req_Kind j))) jobs
        in case InsertMany d ctx params w of
             (Inl e, w') \<Rightarrow> (Inl e, w')
           | (Inr is, w') \<Rightarrow> (Inr (map dec_of_int is), w'))"

definition Stats_river :: "'w RiverHarness \<Rightarrow> Stats" where
  "Stats_river h = zero_Stats\<lparr>WorkersTotal := totalWorkers (rv_cfg h)\<rparr>"

text \<open>\<open>client_Stop\<close>: what \<^verbatim>\<open>client.Stop\<close> answers under the shutdown time-out.\<close>

definition Stop_river :: "(Duration \<Rightarrow> goerr option) \<Rightarrow> 'w RiverHarness \<Rightarrow> goerr option \<times> 'w RiverHarness" where
  "Stop_river client_Stop h =
     (let h1 = h\<lparr>rv_started := False\<rparr> in
      case client h of
        None \<Rightarrow> (None, h1)
      | Some c \<Rightarrow>
          (case client_Stop (ShutdownTimeout (rv_cfg h)) of
             Some e \<Rightarrow> (Some (Errorf ''river adapter: stop: '' e), h1)
           | None \<Rightarrow> (None, h1\<lparr>rv_pool_open := False\<rparr>)))"

section \<open>The worker\<close>

record river_Job =
  rj_ID :: int
  rj_Args :: benchArgs
  rj_Attempt :: int
  rj_CreatedAt :: int

definition Work_river ::
    "'w river_deps \<Rightarrow> 'w RiverHarness \<Rightarrow> Context \<Rightarrow> river_Job \<Rightarrow> 'w \<Rightarrow> goerr option \<times> 'w" where
  "Work_river d h ctx job w =
     (case rv_uuid_Parse d (ba_TenantIDStr (rj_Args job)) of
        Inl e \<Rightarrow> (Some (JobCancel (Errorf ''invalid tenant id: '' e)), w)
      | Inr tenantID \<Rightarrow>
          let kind = ba_KindStr (rj_Args job) in
          (case map_of (rv_workers h) kind of
             None \<Rightarrow> (Some (JobCancel (ErrorQ ''no worker registered for kind '' kind '''')), w)
           | Some fn \<Rightarrow>
               (case fn ctx \<lparr>job_ID = dec_of_int (rj_ID job), job_TenantID = tenantID, job_Kind = kind,
                     job_Payload = ba_Payload (rj_Args job), job_Attempt = int32_of (rj_Attempt job),
                     EnqueuedAt = rj_CreatedAt job\<rparr> w of
                  (None, u) \<Rightarrow> (None, u)
                | (Some err, u) \<Rightarrow>
                    if IsSimulatedError err = Some ErrorPermanent then (Some (JobCancel err), u)
                    else (Some err, u))))"

text \<open>Dependencies and a harness for the witnesses: the world is the list of the inserted jobs.\<close>

definition list_river_deps :: "(benchArgs \<times> string) list river_deps" where
  "list_river_deps = \<lparr>rv_uuid_String = (\<lambda>u. dec_of_nat (unat u)), rv_uuid_Parse = (\<lambda>s. Inr (of_nat (nat_of_dec s))),
     Insert = (\<lambda>ctx a q w. (Inr (int (length w) + 1), w @ [(a, q)])),
     InsertMany = (\<lambda>ctx ps w. (Inr (map (\<lambda>i. int (length w + i)) [1..<Suc (length ps)]), w @ ps))\<rparr>"

definition sample_river :: "bool \<Rightarrow> (benchArgs \<times> string) list RiverHarness" where
  "sample_river run = \<lparr>rv_cfg = \<lparr>PostgresURL = ''postgres://localhost/bench'', Queues = [(''default'', \<lparr>MaxWorkers = 4\<rparr>)],
        MaxAttempts = 3, ShutdownTimeout = 5 * Second\<rparr>,
     router = DefaultRouter, rv_pool_open = True,
     client = (if run then Some \<lparr>rc_Queues = [(''default'', 4)], rc_MaxAttempts = 3\<rparr> else None),
     rv_workers = [(''k'', \<lambda>ctx job w. (None, w))], rv_started = run\<rparr>"


section \<open>Facts\<close>

interpretation river_harness: harness Register_river "Start_river nc cs" rv_started "\<lambda>h. map_of (rv_workers h)"
  for nc cs :: "river_Config \<Rightarrow> goerr option"
proof
  fix h :: "'w RiverHarness" and k f
  show "rv_started h \<or> map_of (rv_workers h) k \<noteq> None \<Longrightarrow> \<exists>e. Register_river k f h = (Some e, h)"
    by (auto simp: Register_river_def)
  show "\<not> rv_started h \<Longrightarrow> map_of (rv_workers h) k = None \<Longrightarrow>
      \<exists>h'. Register_river k f h = (None, h') \<and> \<not> rv_started h' \<and> map_of (rv_workers h') = (map_of (rv_workers h))(k \<mapsto> f)"
    by (auto simp: Register_river_def map_add_def fun_eq_iff split: option.split)
  show "rv_started h \<Longrightarrow> \<exists>e. Start_river nc cs h = (Some e, h)"
    by (auto simp: Start_river_def)
  fix h'
  show "Start_river nc cs h = (None, h') \<Longrightarrow> rv_started h' \<and> map_of (rv_workers h') = map_of (rv_workers h)"
    by (auto simp: Start_river_def Let_def split: if_splits option.splits)
qed

text \<open>The River adapter keeps the same registration contract: a harness that is set up with workers of distinct
  kinds and started runs exactly these workers, whatever is registered later.\<close>

theorem river_started_workers:
  assumes "\<not> rv_started h" and "rv_workers h = []" and "distinct (map fst ws)"
    and "register_all Register_river ws h = (e, h1)" and "Start_river nc cs h1 = (None, h2)"
    and "register_all Register_river late h2 = (e', h3)"
  shows "e = None \<and> rv_started h3 \<and> map_of (rv_workers h3) = map_of ws"
  using river_harness.started_workers [OF assms(1) _ assms(3-6)] assms(2) by simp

theorem river_started_workers_witness:
  "\<exists>h1 h2. register_all Register_river [(''a'', \<lambda>ctx job w. (None, w))] ((sample_river False)\<lparr>rv_workers := []\<rparr>) = (None, h1)
     \<and> Start_river (\<lambda>c. None) (\<lambda>c. None) h1 = (None, h2)
     \<and> map_of (rv_workers (snd (register_all Register_river [(''c'', \<lambda>ctx job w. (None, w))] h2))) ''c'' = None"
proof -
  obtain h1 where h1: "register_all Register_river [(''a'', \<lambda>ctx job w. (None, w))] ((sample_river False)\<lparr>rv_workers := []\<rparr>) = (None, h1)"
    by (simp add: Register_river_def sample_river_def)
  obtain h2 where h2: "Start_river (\<lambda>c. None) (\<lambda>c. None) h1 = (None, h2)"
    using h1 by (auto simp: Start_river_def Register_river_def sample_river_def)
  obtain e' h3 where h3: "register_all Register_river [(''c'', \<lambda>ctx job w. (None, w))] h2 = (e', h3)" by fastforce
  show ?thesis
    using river_started_workers [OF _ _ _ h1 h2 h3] h1 h2 h3 by (simp add: sample_river_def)
qed

text \<open>\<open>EnqueueMany\<close> of the River adapter hands one batch to the client, each job with its own queue, and returns one id per
  inserted row, different ids for different rows; before \<open>Start\<close> nothing is inserted. The hypothesis on the client is that it
  answers with one row per request, pairwise different.\<close>

theorem EnqueueMany_river_ids:
  assumes "client h \<noteq> None"
    and "InsertMany d ctx (map (\<lambda>j. (args_of d (req_TenantID j) (req_Kind j) (req_Payload j), router h (req_Kind j))) jobs) w = (Inr is, w')"
    and "length is = length jobs" and "distinct is" and "\<forall>i \<in> set is. 0 \<le> i"
  shows "\<exists>ids. EnqueueMany_river d h ctx jobs w = (Inr ids, w') \<and> length ids = length jobs \<and> distinct ids"
proof -
  have "inj_on dec_of_int {i. 0 \<le> i}"
    by (rule inj_onI) (simp add: dec_of_int_def)
  then have "distinct (map dec_of_int is)"
    using assms(4,5) by (auto simp: distinct_map intro: inj_on_subset)
  then show ?thesis using assms(1-3) by (simp add: EnqueueMany_river_def)
qed

theorem EnqueueMany_river_ids_witness:
  "\<exists>ids w'. EnqueueMany_river list_river_deps (sample_river True) Background
     [\<lparr>req_TenantID = 1, req_Kind = ''k'', req_Payload = zero_payload\<rparr>, \<lparr>req_TenantID = 2, req_Kind = ''k'', req_Payload = zero_payload\<rparr>] []
     = (Inr ids, w') \<and> length ids = 2 \<and> distinct ids"
  using EnqueueMany_river_ids [of "sample_river True" list_river_deps Background
     "[\<lparr>req_TenantID = 1, req_Kind = ''k'', req_Payload = zero_payload\<rparr>, \<lparr>req_TenantID = 2, req_Kind = ''k'', req_Payload = zero_payload\<rparr>]" "[]" "[1, 2]"]
  by (auto simp: sample_river_def list_river_deps_def numeral_2_eq_2)

lemma Register_river_frame:
  "client (snd (Register_river k f g)) = client g \<and> rv_pool_open (snd (Register_river k f g)) = rv_pool_open g"
  by (simp add: Register_river_def)

lemma register_all_river_frame:
  "client (snd (register_all Register_river ws g)) = client g \<and> rv_pool_open (snd (register_all Register_river ws g)) = rv_pool_open g"
proof (induction ws arbitrary: g)
  case (Cons kf ws)
  obtain k f where kf: "kf = (k, f)" by fastforce
  obtain e g' where g': "Register_river k f g = (e, g')" by fastforce
  show ?case
    using Cons.IH [of g'] Register_river_frame [of k f g] by (cases e) (simp_all add: kf g')
qed simp

text \<open>\<open>Stop\<close> before \<open>Start\<close> reports success but leaves the connection pool that \<open>New\<close> opened open.\<close>

theorem Stop_river_before_Start_leaks_pool:
  assumes "New_river env c o' = (Inr h, True)" and "register_all Register_river ws h = (e, h1)"
    and "Stop_river cs h1 = (e', h2)"
  shows "e' = None \<and> rv_pool_open h2"
proof -
  have h: "client h = None" "rv_pool_open h"
    using assms(1) by (auto simp: New_river_def Let_def split: option.splits)
  have "client h1 = None" "rv_pool_open h1" using h register_all_river_frame [of ws h] assms(2) by auto
  then show ?thesis using assms(3) by (auto simp: Stop_river_def)
qed

theorem Stop_river_before_Start_leaks_pool_witness:
  "\<exists>h :: unit RiverHarness. New_river \<lparr>rv_connect_err = None, new_migrator_err = None, migrate_err = None\<rparr> (rv_cfg (sample_river False))
      \<lparr>Router = None, FetchCooldown = 0, FetchPollInterval = 0\<rparr> = (Inr h, True) \<and> rv_pool_open (snd (Stop_river (\<lambda>t. None) h))"
proof -
  obtain h :: "unit RiverHarness" where h: "New_river \<lparr>rv_connect_err = None, new_migrator_err = None, migrate_err = None\<rparr> (rv_cfg (sample_river False))
      \<lparr>Router = None, FetchCooldown = 0, FetchPollInterval = 0\<rparr> = (Inr h, True)"
    by (simp add: New_river_def sample_river_def Validate_def Second_def)
  obtain e' h2 where s: "Stop_river (\<lambda>t. None) h = (e', h2)" by fastforce
  show ?thesis
    using Stop_river_before_Start_leaks_pool [OF h _ s, of "[]" None] h s by auto
qed

end
