(* ===== verification/Bench_CLI.thy ===== *)
theory Bench_CLI
  imports Bench_Runner Platlib_Adapter River_Adapter
begin

text \<open>
  The command line (\<^verbatim>\<open>cmd/bench/main.go\<close>): flags, the choice of scenario and library, \<^verbatim>\<open>bench run\<close> and
  \<^verbatim>\<open>bench report\<close>, and the exit status. Here the adapters are plugged into the runner. The rules of the \<^verbatim>\<open>flag\<close>
  package are written out; the texts of integers and durations are read by \<open>parse_int\<close> and
  \<open>parse_duration\<close>. What the operating system, the databases and the libraries answer is in \<open>cli_env\<close>.
\<close>

section \<open>Flags\<close>

datatype flag_kind = StringFlag | IntFlag | DurationFlag | BoolFlag
datatype flag_val = StrV string | IntV int | BoolV bool
datatype parsed = Parsed "(string \<times> flag_val) list" | ParseHelp | ParseError

record flag_readers =
  parse_int :: "string \<Rightarrow> int option"
  parse_duration :: "string \<Rightarrow> int option"

definition ParseBool :: "string \<Rightarrow> bool option" where
  "ParseBool s =
     (if s \<in> {''1'', ''t'', ''T'', ''true'', ''TRUE'', ''True''} then Some True
      else if s \<in> {''0'', ''f'', ''F'', ''false'', ''FALSE'', ''False''} then Some False else None)"

fun read_flag :: "flag_readers \<Rightarrow> flag_kind \<Rightarrow> string \<Rightarrow> flag_val option" where
  "read_flag rd StringFlag s = Some (StrV s)"
| "read_flag rd IntFlag s = map_option IntV (parse_int rd s)"
| "read_flag rd DurationFlag s = map_option IntV (parse_duration rd s)"
| "read_flag rd BoolFlag s = map_option BoolV (ParseBool s)"

text \<open>The name and the value of \<^verbatim>\<open>name=value\<close>; the first character belongs to the name.\<close>

definition split_eq :: "string \<Rightarrow> string \<times> string option" where
  "split_eq s =
     (let name = hd s # takeWhile (\<lambda>c. c \<noteq> CHR ''='') (tl s) in
      (name, if length name < length s then Some (drop (Suc (length name)) s) else None))"

text \<open>\<^verbatim>\<open>FlagSet.Parse\<close>: arguments up to the first that is not a flag, later values of a flag winning.\<close>

fun Parse :: "flag_readers \<Rightarrow> (string \<times> flag_kind) list \<Rightarrow> string list \<Rightarrow> (string \<times> flag_val) list \<Rightarrow> parsed" where
  "Parse rd defs [] vs = Parsed vs"
| "Parse rd defs (s # rest) vs =
     (if length s < 2 \<or> hd s \<noteq> CHR ''-'' \<or> s = ''--'' then Parsed vs
      else
        let body = (if s ! 1 = CHR ''-'' then drop 2 s else drop 1 s) in
        if body = [] \<or> hd body = CHR ''-'' \<or> hd body = CHR ''='' then ParseError
        else case split_eq body of (name, value) \<Rightarrow>
          (case map_of defs name of
             None \<Rightarrow> if name = ''help'' \<or> name = ''h'' then ParseHelp else ParseError
           | Some k \<Rightarrow>
               (case value of
                  Some v \<Rightarrow> (case read_flag rd k v of None \<Rightarrow> ParseError | Some x \<Rightarrow> Parse rd defs rest (AList.update name x vs))
                | None \<Rightarrow>
                    if k = BoolFlag then Parse rd defs rest (AList.update name (BoolV True) vs)
                    else (case rest of
                            [] \<Rightarrow> ParseError
                          | v # rest' \<Rightarrow>
                              (case read_flag rd k v of None \<Rightarrow> ParseError | Some x \<Rightarrow> Parse rd defs rest' (AList.update name x vs))))))"

definition str_flag :: "(string \<times> flag_val) list \<Rightarrow> string \<Rightarrow> string \<Rightarrow> string" where
  "str_flag vs n d = (case map_of vs n of Some (StrV s) \<Rightarrow> s | _ \<Rightarrow> d)"

definition int_flag :: "(string \<times> flag_val) list \<Rightarrow> string \<Rightarrow> int \<Rightarrow> int" where
  "int_flag vs n d = (case map_of vs n of Some (IntV i) \<Rightarrow> i | _ \<Rightarrow> d)"

definition bool_flag :: "(string \<times> flag_val) list \<Rightarrow> string \<Rightarrow> bool" where
  "bool_flag vs n = (case map_of vs n of Some (BoolV b) \<Rightarrow> b | _ \<Rightarrow> False)"

section \<open>Adapters as harnesses of the runner\<close>

text \<open>\<open>'w\<close> is the world of the adapter, the platform-lib harness also carries its counter of work ids.\<close>

definition platlib_ops ::
    "'w deps \<Rightarrow> ((int \<times> int) list \<Rightarrow> int list \<Rightarrow> goerr option) \<Rightarrow> (Duration \<Rightarrow> goerr option) \<Rightarrow> bool list
     \<Rightarrow> ('w WorkerFunc, 'w Harness \<times> uint64 \<times> 'w) harness_ops" where
  "platlib_ops d conc ag_Stop fired =
     \<lparr>op_Register = (\<lambda>k f (h, cw). case Register_platlib k f h of (e, h') \<Rightarrow> (e, h', cw)),
      op_Start = (\<lambda>(h, cw). case Start_platlib conc h of (e, h') \<Rightarrow> (e, h', cw)),
      op_Enqueue = (\<lambda>ctx t k p (h, cw). case Enqueue_platlib d h ctx t k p cw of (r, cw') \<Rightarrow> (r, h, cw')),
      op_Stop = (\<lambda>(h, c, w). case Stop_platlib d ag_Stop fired h w of (r, h', w') \<Rightarrow> (r, h', c, w'))\<rparr>"

definition river_ops ::
    "'w river_deps \<Rightarrow> (river_Config \<Rightarrow> goerr option) \<Rightarrow> (river_Config \<Rightarrow> goerr option) \<Rightarrow> (Duration \<Rightarrow> goerr option)
     \<Rightarrow> ('w RiverWorkerFunc, 'w RiverHarness \<times> 'w) harness_ops" where
  "river_ops d nc cs client_Stop =
     \<lparr>op_Register = (\<lambda>k f (h, w). case Register_river k f h of (e, h') \<Rightarrow> (e, h', w)),
      op_Start = (\<lambda>(h, w). case Start_river nc cs h of (e, h') \<Rightarrow> (e, h', w)),
      op_Enqueue = (\<lambda>ctx t k p (h, w). case Enqueue_river d h ctx t k p w of (r, w') \<Rightarrow> (r, h, w')),
      op_Stop = (\<lambda>(h, w). case Stop_river client_Stop h of (e, h') \<Rightarrow> (Returned e, h', w))\<rparr>"

section \<open>bench run\<close>

definition run_flag_kinds :: "(string \<times> flag_kind) list" where
  "run_flag_kinds = [(''lib'', StringFlag), (''scenario'', StringFlag), (''postgres-url'', StringFlag), (''results-dir'', StringFlag),
     (''workers'', IntFlag), (''addressed-push'', BoolFlag), (''duration'', DurationFlag), (''rate'', IntFlag), (''tenants'', IntFlag),
     (''backoff'', BoolFlag)]"

record run_flags =
  f_lib :: string
  f_scenario :: string
  f_pgURL :: string
  f_resultsDir :: string
  f_workers :: int
  f_addressedPush :: bool
  f_duration :: Duration
  f_rate :: int
  f_tenants :: int
  f_backoff :: bool

definition run_flags_of :: "(string \<times> flag_val) list \<Rightarrow> run_flags" where
  "run_flags_of vs = \<lparr>f_lib = str_flag vs ''lib'' '''', f_scenario = str_flag vs ''scenario'' '''',
     f_pgURL = str_flag vs ''postgres-url'' '''', f_resultsDir = str_flag vs ''results-dir'' ''./results'',
     f_workers = int_flag vs ''workers'' 10, f_addressedPush = bool_flag vs ''addressed-push'', f_duration = int_flag vs ''duration'' 0,
     f_rate = int_flag vs ''rate'' 0, f_tenants = int_flag vs ''tenants'' 0, f_backoff = bool_flag vs ''backoff''\<rparr>"

definition override_spec :: "run_flags \<Rightarrow> Spec \<Rightarrow> Spec" where
  "override_spec f s =
     (let s1 = (if f_duration f > 0 then s\<lparr>sp_Duration := f_duration f\<rparr> else s);
          s2 = (if f_rate f > 0 then s1\<lparr>EnqueueRate := f_rate f\<rparr> else s1)
      in if f_tenants f > 0 then s2\<lparr>Tenants := f_tenants f\<rparr> else s2)"

definition run_config :: "run_flags \<Rightarrow> Config" where
  "run_config f = \<lparr>PostgresURL = f_pgURL f, Queues = [(''default'', \<lparr>MaxWorkers = f_workers f\<rparr>)], MaxAttempts = 3,
     ShutdownTimeout = 30 * Second\<rparr>"

text \<open>The part of \<open>cmdRun\<close> before a library is chosen.\<close>

definition run_plan :: "run_flags \<Rightarrow> goerr + Spec \<times> Config" where
  "run_plan f =
     (if f_lib f = '''' \<or> f_scenario f = '''' \<or> f_pgURL f = ''''
      then Inl (ErrorsNew ''run: --lib, --scenario, --postgres-url are required'')
      else case SpecFor (f_scenario f) of
        Inl e \<Rightarrow> Inl (Errorf ''scenario: '' e)
      | Inr s \<Rightarrow> Inr (override_spec f s, run_config f))"

definition platlib_options :: "run_flags \<Rightarrow> Options" where
  "platlib_options f = \<lparr>DefaultPriority = 0, UseAddressedPush = f_addressedPush f,
     BackoffFn = (if f_backoff f then Some ExponentialBackoffRiverLike else None)\<rparr>"

definition river_options :: RiverOptions where
  "river_options = \<lparr>Router = None, FetchCooldown = 0, FetchPollInterval = 0\<rparr>"

record ('w, 'r) cli_env =
  readers :: flag_readers
  unix_now :: int
  dur_String :: "Duration \<Rightarrow> string"
  mkdir_err :: "goerr option"
  open_err :: "string \<Rightarrow> goerr option"
  existing :: "string \<Rightarrow> json list"
  close_err :: "goerr option"
  benv :: bench_env
  genv :: "'r gen_env"
  visit :: "Spec \<Rightarrow> Kind list"
  acts :: "action list"
  late :: "action list"
  pl_new :: new_env
  pl_deps :: "'w bench_scheme deps"
  pl_conc :: "(int \<times> int) list \<Rightarrow> int list \<Rightarrow> goerr option"
  pl_stop :: "Duration \<Rightarrow> goerr option"
  pl_fired :: "bool list"
  pl_pg :: pg_world
  rv_new :: river_env
  rv_deps :: "'w bench_scheme river_deps"
  rv_client :: "river_Config \<Rightarrow> goerr option"
  rv_start :: "river_Config \<Rightarrow> goerr option"
  rv_stop :: "Duration \<Rightarrow> goerr option"
  world0 :: "'w bench_scheme"

datatype cmd_result = CmdExit nat | CmdReturns "goerr option" | CmdPanics string | CmdBlocked

definition new_bench :: "Recorder \<Rightarrow> bench" where
  "new_bench r = \<lparr>recorder = r, enqueueCount = 0, completedCount = 0, failedCount = 0, clock_ix = 0, write_ix = 0\<rparr>"

definition run_id :: "('w, 'r) cli_env \<Rightarrow> run_flags \<Rightarrow> string" where
  "run_id env f = f_lib f @ ''-'' @ f_scenario f @ ''-'' @ dec_of_int (unix_now env)"

text \<open>From the harness on: the recorder, the run, the messages. The result also holds the results file.\<close>

definition launch ::
    "('w, 'r) cli_env \<Rightarrow> run_flags \<Rightarrow> Spec \<Rightarrow> ('w bench_scheme WorkerFunc, 'h) harness_ops \<Rightarrow> 'h
     \<Rightarrow> cmd_result \<times> string \<times> Recorder option" where
  "launch env f s ops h =
     (let rid = run_id env f in
      case NewRecorder (mkdir_err env) (open_err env) (existing env) (f_resultsDir f) rid of
        Inl e \<Rightarrow> (CmdReturns (Some e), '''', None)
      | Inr r \<Rightarrow>
          let hello = ''run '' @ rid @ '': library='' @ f_lib f @ '' scenario='' @ f_scenario f @ '' duration='' @ dur_String env (sp_Duration s)
                @ '' enqueue_rate='' @ dec_of_int (EnqueueRate s) @ nl;
              c = \<lparr>rc_Library = f_lib f, rc_Spec = s, EnqueueConcurrency = 0, DrainTimeout = 0, ResourceSampleInterval = 0\<rparr>
          in case Run_bench (benv env) (genv env) ops (\<lambda>k. workerFn (benv env)) (visit env s) (acts env) (late env) c (new_bench r) h of
               (res, st) \<Rightarrow>
                 let r' = snd (Close (close_err env) (recorder (bst st))) in
                 (case res of
                    RunReturns None \<Rightarrow> (CmdReturns None, hello @ ''run '' @ rid @ '' done: results written to '' @ f_resultsDir f @ ''/'' @ rid @ ''.jsonl'' @ nl, Some r')
                  | RunReturns (Some e) \<Rightarrow> (CmdReturns (Some e), hello, Some r')
                  | RunPanics m \<Rightarrow> (CmdPanics m, hello, Some (recorder (bst st)))
                  | RunBlocked \<Rightarrow> (CmdBlocked, hello, Some (recorder (bst st)))))"

definition cmdRun :: "('w, 'r) cli_env \<Rightarrow> string list \<Rightarrow> cmd_result \<times> string \<times> Recorder option" where
  "cmdRun env args =
     (case Parse (readers env) run_flag_kinds args [] of
        ParseHelp \<Rightarrow> (CmdExit 0, '''', None)
      | ParseError \<Rightarrow> (CmdExit 2, '''', None)
      | Parsed vs \<Rightarrow>
          let f = run_flags_of vs in
          (case run_plan f of
             Inl e \<Rightarrow> (CmdReturns (Some e), '''', None)
           | Inr (s, c) \<Rightarrow>
               if f_lib f = ''river'' then
                 (case fst (New_river (rv_new env) c river_options) of
                    Inl e \<Rightarrow> (CmdReturns (Some e), '''', None)
                  | Inr h \<Rightarrow> launch env f s (river_ops (rv_deps env) (rv_client env) (rv_start env) (rv_stop env)) (h, world0 env))
               else if f_lib f = ''platlib'' then
                 (case fst (New_platlib (pl_new env) c (platlib_options f) (pl_pg env)) of
                    Inl e \<Rightarrow> (CmdReturns (Some e), '''', None)
                  | Inr h \<Rightarrow> launch env f s (platlib_ops (pl_deps env) (pl_conc env) (pl_stop env) (pl_fired env)) (h, 0, world0 env))
               else (CmdReturns (Some (ErrorQ ''unknown library '' (f_lib f) '' (expected river or platlib)'')), '''', None)))"

section \<open>bench report\<close>

definition report_flag_kinds :: "(string \<times> flag_kind) list" where
  "report_flag_kinds = [(''results-dir'', StringFlag), (''out'', StringFlag)]"

text \<open>\<open>read_dir\<close> is \<^verbatim>\<open>os.ReadDir\<close> with the contents of the files; the last component is the file written.\<close>

definition cmdReport ::
    "flag_readers \<Rightarrow> (string \<Rightarrow> goerr + int) \<Rightarrow> (string \<Rightarrow> goerr + dir_entry list) \<Rightarrow> (string \<Rightarrow> goerr option) \<Rightarrow> string list
     \<Rightarrow> cmd_result \<times> string \<times> (string \<times> string) option" where
  "cmdReport rd parse_time read_dir write_err args =
     (case Parse rd report_flag_kinds args [] of
        ParseHelp \<Rightarrow> (CmdExit 0, '''', None)
      | ParseError \<Rightarrow> (CmdExit 2, '''', None)
      | Parsed vs \<Rightarrow>
          (case AnalyzeDir parse_time (read_dir (str_flag vs ''results-dir'' ''./results'')) of
             Inl e \<Rightarrow> (CmdReturns (Some (Errorf ''analyze: '' e)), '''', None)
           | Inr summaries \<Rightarrow>
               let md = RenderMarkdown summaries; out = str_flag vs ''out'' '''' in
               if out = '''' then (CmdReturns None, md, None)
               else case write_err out of
                 Some e \<Rightarrow> (CmdReturns (Some (Errorf ''write report: '' e)), '''', None)
               | None \<Rightarrow> (CmdReturns None, ''report: wrote '' @ out @ nl, Some (out, md))))"

section \<open>main\<close>

definition usage_text :: string where
  "usage_text = ''bench '' @ em_dash @ '' queue-benchmark CLI'' @ nl @ nl
     @ ''Usage:'' @ nl
     @ ''  bench run    --lib=<river|platlib> --scenario=<name> --postgres-url=<url> [flags]'' @ nl
     @ ''  bench report --results-dir=<path>                            (Phase 4)'' @ nl @ nl
     @ ''Scenarios: steady, burst, noisy_neighbor, rate_limit_pressure, notify_latency'' @ nl @ nl
     @ ''Flags for run:'' @ nl
     @ ''  --lib              river | platlib'' @ nl
     @ ''  --scenario         built-in scenario name'' @ nl
     @ ''  --postgres-url     Postgres connection URL'' @ nl
     @ ''  --results-dir      output dir for JSONL results (default ./results)'' @ nl
     @ ''  --workers          harness worker count (default 10)'' @ nl
     @ ''  --addressed-push   platform-lib only: use AddressedPush instead of Push'' @ nl @ nl"

text \<open>The exit status (\<open>None\<close> for a process that panics or never ends) and what goes to standard error.\<close>

definition exit_of :: "cmd_result \<Rightarrow> nat option \<times> string" where
  "exit_of r =
     (case r of
        CmdExit n \<Rightarrow> (Some n, '''')
      | CmdReturns None \<Rightarrow> (Some 0, '''')
      | CmdReturns (Some e) \<Rightarrow> (Some 1, error_text e @ nl)
      | CmdPanics m \<Rightarrow> (None, ''panic: '' @ m)
      | CmdBlocked \<Rightarrow> (None, ''''))"

definition main ::
    "(string list \<Rightarrow> cmd_result) \<Rightarrow> (string list \<Rightarrow> cmd_result) \<Rightarrow> string list \<Rightarrow> nat option \<times> string" where
  "main run report args =
     (case args of
        [] \<Rightarrow> (Some 2, usage_text)
      | [p] \<Rightarrow> (Some 2, usage_text)
      | p # cmd # rest \<Rightarrow>
          if cmd = ''run'' then exit_of (run rest)
          else if cmd = ''report'' then exit_of (report rest)
          else if cmd = ''-h'' \<or> cmd = ''--help'' \<or> cmd = ''help'' then (Some 0, usage_text)
          else (Some 2, ''unknown subcommand '' @ go_quote cmd @ nl @ usage_text))"

definition flag_arg :: "string \<times> string \<Rightarrow> string" where
  "flag_arg nv = ''--'' @ fst nv @ ''='' @ snd nv"

definition flag_name_ok :: "string \<Rightarrow> bool" where
  "flag_name_ok n \<longleftrightarrow> n \<noteq> [] \<and> hd n \<noteq> CHR ''-'' \<and> CHR ''='' \<notin> set n"

definition decimal_readers :: flag_readers where
  "decimal_readers = \<lparr>parse_int = (\<lambda>s. Some (int (nat_of_dec s))), parse_duration = (\<lambda>s. Some (int (nat_of_dec s)))\<rparr>"

definition sample_flags :: run_flags where
  "sample_flags = run_flags_of [(''lib'', StrV ''river''), (''scenario'', StrV ''burst''), (''postgres-url'', StrV ''pg''), (''rate'', IntV 7)]"

definition sample_request :: EnqueueRequest where
  "sample_request = fst (nextRequest sample_rng (fst (NewGenerator (\<lambda>a b. 0 :: nat) (rc_Spec sample_cfg) (pool_of 1))) 0)"

definition perm_payload :: JobPayload where
  "perm_payload = \<lparr>WorkMillis = 0, Bytes = None, FailWithError = ErrorPermanent, pl_Attempt = 0\<rparr>"

definition bench_deps :: "bench deps" where
  "bench_deps = \<lparr>uuid_String = (\<lambda>u. dec_of_nat (unat u)), uuid_Parse = (\<lambda>s. Inr (of_nat (nat_of_dec s))),
     q_Push = (\<lambda>ctx pri g b w. (None, w)), q_AddressedPush = (\<lambda>ctx pri g a b w. (None, w))\<rparr>"

definition bench_river_deps :: "bench river_deps" where
  "bench_river_deps = \<lparr>rv_uuid_String = (\<lambda>u. dec_of_nat (unat u)), rv_uuid_Parse = (\<lambda>s. Inr (of_nat (nat_of_dec s))),
     Insert = (\<lambda>ctx a q w. (Inr 1, w)), InsertMany = (\<lambda>ctx ps w. (Inr (map (\<lambda>p. 1) ps), w))\<rparr>"

definition bench_harness :: "bench Harness" where
  "bench_harness = \<lparr>cfg = sample_config, opts = \<lparr>DefaultPriority = 10, UseAddressedPush = False, BackoffFn = None\<rparr>,
     workers = [(''k'', workerFn sample_env)], started = True, agent = Some [(10, 4)], factory = Some [(kindCode ''k'', ''k'')],
     stopCh = False, pool_open = True, lf_open = True, retries = []\<rparr>"

definition bench_river :: "bench RiverHarness" where
  "bench_river = \<lparr>rv_cfg = sample_config, router = DefaultRouter, rv_pool_open = True, client = Some \<lparr>rc_Queues = [(''default'', 4)], rc_MaxAttempts = 400\<rparr>,
     rv_workers = [(''k'', workerFn sample_env)], rv_started = True\<rparr>"

definition sample_cli :: "(unit, nat) cli_env" where
  "sample_cli = \<lparr>readers = decimal_readers, unix_now = 42, dur_String = dec_of_int, mkdir_err = None, open_err = (\<lambda>p. None),
     existing = (\<lambda>p. []), close_err = None, benv = sample_env, genv = sample_gen, visit = (\<lambda>s. [''entity_update'']),
     acts = [Take Background 0, Return 0, Log 0], late = [],
     pl_new = \<lparr>connect_err = None, broadcaster_err = None, queue_err = None\<rparr>, pl_deps = bench_deps,
     pl_conc = (\<lambda>t p. None), pl_stop = (\<lambda>t. None), pl_fired = [], pl_pg = empty_world,
     rv_new = \<lparr>rv_connect_err = None, new_migrator_err = None, migrate_err = None\<rparr>, rv_deps = bench_river_deps,
     rv_client = (\<lambda>c. None), rv_start = (\<lambda>c. None), rv_stop = (\<lambda>t. None), world0 = sample_bench\<rparr>"

definition sample_args :: "string list" where
  "sample_args = [''--lib=river'', ''-scenario'', ''notify_latency'', ''--postgres-url=pg'']"

definition sample_vals :: "(string \<times> flag_val) list" where
  "sample_vals = [(''lib'', StrV ''river''), (''scenario'', StrV ''notify_latency''), (''postgres-url'', StrV ''pg'')]"


section \<open>Facts\<close>

lemma run_config_valid: "Validate (run_config f) = None \<longleftrightarrow> f_pgURL f \<noteq> '''' \<and> 0 < f_workers f"
  by (simp add: Validate_None run_config_def Second_def)

lemma override_spec_ok: "spec_ok s \<Longrightarrow> f_rate f \<le> Second \<Longrightarrow> spec_ok (override_spec f s)"
  by (simp add: override_spec_def spec_ok_def Let_def)


text \<open>a rate above one job per nanosecond, which the flags accept, makes the generator panic.\<close>

theorem huge_rate_panics:
  assumes "Second < EnqueueRate (spec g)"
  shows "Run_generator rg g lossy ws ss r = TickerPanics"
  using assms by (simp add: Run_generator_def baseInterval_def Second_def Let_def)

lemma split_eq_name:
  assumes "n \<noteq> []" "CHR ''='' \<notin> set n"
  shows "split_eq (n @ CHR ''='' # v) = (n, Some v)"
proof -
  obtain c cs where n: "n = c # cs" using assms(1) by (cases n) auto
  have "takeWhile (\<lambda>x. x \<noteq> CHR ''='') (cs @ CHR ''='' # v) = cs"
    using assms(2) n by (subst takeWhile_append2) auto
  then show ?thesis by (simp add: split_eq_def n)
qed




theorem huge_rate_panics_witness:
  "Run_generator sample_rng (fst (NewGenerator (\<lambda>a b. 0 :: nat) (base_spec ''steady'' 10 5 2000000000 1) (pool_of 5))) False [] [] 0 = TickerPanics"
  by (rule huge_rate_panics) (simp add: NewGenerator_def base_spec_def Second_def)

interpretation platlib_run: harness "op_Register (platlib_ops d c st fi)" "op_Start (platlib_ops d c st fi)"
  "\<lambda>(h, cw). started h" "\<lambda>(h, cw). map_of (workers h)"
  for d :: "'w deps" and c :: "(int \<times> int) list \<Rightarrow> int list \<Rightarrow> goerr option" and st :: "Duration \<Rightarrow> goerr option" and fi :: "bool list"
proof
  fix s s' :: "'w Harness \<times> uint64 \<times> 'w" and k f
  obtain h cw where s: "s = (h, cw)" by (cases s) blast
  show "(case s of (h, cw) \<Rightarrow> started h) \<or> (case s of (h, cw) \<Rightarrow> map_of (workers h)) k \<noteq> None \<Longrightarrow>
      \<exists>e. op_Register (platlib_ops d c st fi) k f s = (Some e, s)"
    using platlib_harness.register_refused [of h k f] by (auto simp: s platlib_ops_def)
  show "\<not> (case s of (h, cw) \<Rightarrow> started h) \<Longrightarrow> (case s of (h, cw) \<Rightarrow> map_of (workers h)) k = None \<Longrightarrow>
      \<exists>s'. op_Register (platlib_ops d c st fi) k f s = (None, s') \<and> \<not> (case s' of (h, cw) \<Rightarrow> started h)
        \<and> (case s' of (h, cw) \<Rightarrow> map_of (workers h)) = (case s of (h, cw) \<Rightarrow> map_of (workers h))(k \<mapsto> f)"
    using platlib_harness.register_accepted [of h k f] by (auto simp: s platlib_ops_def)
  show "case s of (h, cw) \<Rightarrow> started h \<Longrightarrow> \<exists>e. op_Start (platlib_ops d c st fi) s = (Some e, s)"
    using platlib_harness.start_twice [of h c] by (auto simp: s platlib_ops_def)
  show "op_Start (platlib_ops d c st fi) s = (None, s') \<Longrightarrow> (case s' of (h, cw) \<Rightarrow> started h)
      \<and> (case s' of (h, cw) \<Rightarrow> map_of (workers h)) = (case s of (h, cw) \<Rightarrow> map_of (workers h))"
    using platlib_harness.start_runs [of c h] by (auto simp: s platlib_ops_def split: prod.splits)
qed

interpretation river_run: harness "op_Register (river_ops d nc cs st)" "op_Start (river_ops d nc cs st)"
  "\<lambda>(h, w). rv_started h" "\<lambda>(h, w). map_of (rv_workers h)"
  for d :: "'w river_deps" and nc cs :: "river_Config \<Rightarrow> goerr option" and st :: "Duration \<Rightarrow> goerr option"
proof
  fix s s' :: "'w RiverHarness \<times> 'w" and k f
  obtain h w where s: "s = (h, w)" by (cases s) blast
  show "(case s of (h, w) \<Rightarrow> rv_started h) \<or> (case s of (h, w) \<Rightarrow> map_of (rv_workers h)) k \<noteq> None \<Longrightarrow>
      \<exists>e. op_Register (river_ops d nc cs st) k f s = (Some e, s)"
    using river_harness.register_refused [of h k f] by (auto simp: s river_ops_def)
  show "\<not> (case s of (h, w) \<Rightarrow> rv_started h) \<Longrightarrow> (case s of (h, w) \<Rightarrow> map_of (rv_workers h)) k = None \<Longrightarrow>
      \<exists>s'. op_Register (river_ops d nc cs st) k f s = (None, s') \<and> \<not> (case s' of (h, w) \<Rightarrow> rv_started h)
        \<and> (case s' of (h, w) \<Rightarrow> map_of (rv_workers h)) = (case s of (h, w) \<Rightarrow> map_of (rv_workers h))(k \<mapsto> f)"
    using river_harness.register_accepted [of h k f] by (auto simp: s river_ops_def)
  show "case s of (h, w) \<Rightarrow> rv_started h \<Longrightarrow> \<exists>e. op_Start (river_ops d nc cs st) s = (Some e, s)"
    using river_harness.start_twice [of h nc cs] by (auto simp: s river_ops_def)
  show "op_Start (river_ops d nc cs st) s = (None, s') \<Longrightarrow> (case s' of (h, w) \<Rightarrow> rv_started h)
      \<and> (case s' of (h, w) \<Rightarrow> map_of (rv_workers h)) = (case s of (h, w) \<Rightarrow> map_of (rv_workers h))"
    using river_harness.start_runs [of nc cs h] by (auto simp: s river_ops_def split: prod.splits)
qed

lemma New_platlib_fresh:
  "fst (New_platlib ne cf o' pgw) = Inr h \<Longrightarrow> \<not> started h \<and> workers h = [] \<and> cfg h = cf
     \<and> opts h = (if DefaultPriority o' = 0 then o'\<lparr>DefaultPriority := 10\<rparr> else o')"
  by (auto simp: New_platlib_def Let_def split: option.splits prod.splits)

lemma New_river_fresh: "fst (New_river re cf o') = Inr h \<Longrightarrow> \<not> rv_started h \<and> rv_workers h = []"
  by (auto simp: New_river_def Let_def split: option.splits)

lemma register_kinds_platlib:
  "register_kinds (op_Register (platlib_ops d conc st fi)) fn ks (h, cw) = (e, h1, cw1) \<Longrightarrow> opts h1 = opts h \<and> cfg h1 = cfg h \<and> cw1 = cw"
  by (induction ks arbitrary: h e h1 cw1)
     (auto simp: platlib_ops_def Register_platlib_def split: prod.splits option.splits if_splits)

lemma Run_setup_platlib:
  assumes "Run_setup env (platlib_ops d conc st fi) fn ks c b (h, cw) = (None, b1, h1, cw1)"
  shows "opts h1 = opts h \<and> cfg h1 = cfg h \<and> cw1 = cw"
proof -
  obtain e h2 cw2 where r: "register_kinds (op_Register (platlib_ops d conc st fi)) fn ks (h, cw) = (e, h2, cw2)" by (metis prod_cases3)
  have "op_Start (platlib_ops d conc st fi) (h2, cw2) = (None, h1, cw1)"
    using assms by (auto simp: Run_setup_def r split: prod.splits option.splits)
  then have "opts h1 = opts h2 \<and> cfg h1 = cfg h2 \<and> cw1 = cw2"
    by (auto simp: platlib_ops_def Start_platlib_def Let_def split: prod.splits option.splits if_splits)
  then show ?thesis using register_kinds_platlib [OF r] by simp
qed

text \<open>C11: the components fit together: once the runner has set up a fresh platform-lib harness, every request the
  generator can produce for that workload finds a registered worker, the runner's, and is pushed with
  its kind and payload as a first attempt; an enqueue fails only if that push fails.\<close>

theorem every_request_is_pushed:
  assumes "fst (New_platlib ne cf o' pgw) = Inr h" "\<not> UseAddressedPush o'"
    and "distinct order" "set order = jc_Kind ` set (JobMix (rc_Spec c))"
    and "Run_setup env (platlib_ops d conc st fi) fn order c b (h, cw) = (None, b1, h1, cw1)"
    and "request_ok g q" "spec g = rc_Spec c"
  shows "map_of (workers h1) (req_Kind q) = Some (fn (req_Kind q)) \<and>
    (\<exists>work. KindStr work = req_Kind q \<and> bw_Payload work = req_Payload q \<and> bw_Attempt work = 1 \<and> WorkID work = ctr + 1
      \<and> Enqueue_platlib d h1 ctx (req_TenantID q) (req_Kind q) (req_Payload q) (ctr, w) =
        (case q_Push d ctx (DefaultPriority (opts h1)) 0 work w of
           (Some e, v) \<Rightarrow> (Inl e, ctr + 1, v)
         | (None, v) \<Rightarrow> (Inr (Address_benchWork work), ctr + 1, v)))"
proof -
  note h = New_platlib_fresh [OF assms(1)]
  have k: "req_Kind q \<in> set order" using assms(4,6,7) by (simp add: request_ok_def)
  have "(case (h1, cw1) of (h, cw) \<Rightarrow> started h) \<and>
      (case (h1, cw1) of (h, cw) \<Rightarrow> map_of (workers h)) = (\<lambda>k. if k \<in> set order then Some (fn k) else None)"
    by (rule platlib_run.setup_started [OF refl refl _ _ assms(3,5)]) (use h in auto)
  then have s: "started h1" "map_of (workers h1) (req_Kind q) = Some (fn (req_Kind q))" using k by auto
  have a: "\<not> UseAddressedPush (opts h1)" using Run_setup_platlib [OF assms(5)] h assms(2) by auto
  let ?work = "\<lparr>WorkID = ctr + 1, TenantIDStr = uuid_String d (req_TenantID q), KindStr = req_Kind q, bw_Attempt = 1, bw_Payload = req_Payload q\<rparr>"
  have "Enqueue_platlib d h1 ctx (req_TenantID q) (req_Kind q) (req_Payload q) (ctr, w) =
        (case q_Push d ctx (DefaultPriority (opts h1)) 0 ?work w of
           (Some e, v) \<Rightarrow> (Inl e, ctr + 1, v)
         | (None, v) \<Rightarrow> (Inr (Address_benchWork ?work), ctr + 1, v))"
    using s a by (simp add: Enqueue_platlib_def nextWorkID_def Address_benchWork_def Let_def split: prod.split option.split)
  then show ?thesis using s(2) by (intro conjI exI [of _ ?work]) simp_all
qed

lemma workerFn_injected:
  assumes "FailWithError (job_Payload job) \<noteq> ''''"
  shows "\<exists>m u. workerFn env ctx job w = (Some (SimulatedError (FailWithError (job_Payload job)) m), u)"
proof -
  obtain t b where b: "worker_begin env job w = (t, b)" by fastforce
  obtain m where "fst (Simulate ctx (select_pick env (clock_ix b)) job) = Some (SimulatedError (FailWithError (job_Payload job)) m)"
    using Simulate_injected [OF assms, of ctx "select_pick env (clock_ix b)"] by auto
  then show ?thesis by (auto simp: workerFn_def b Let_def split: prod.split)
qed


lemma sample_request_ok: "request_ok (fst (NewGenerator (\<lambda>a b. 0 :: nat) (rc_Spec sample_cfg) (pool_of 1))) sample_request"
proof -
  have "spec_ok (rc_Spec sample_cfg)"
    using SpecFor_Inr [of "''notify_latency''" "rc_Spec sample_cfg"] by (simp add: SpecFor_def sample_cfg_def)
  then show ?thesis unfolding sample_request_def
    by (intro nextRequest_ok [OF sample_rng_ok]) (simp_all add: NewGenerator_def pool_of_def)
qed

theorem every_request_is_pushed_witness:
  "\<exists>h1 b1 cw1. Run_setup sample_env (platlib_ops list_deps (\<lambda>t p. None) (\<lambda>t. None) []) (\<lambda>k ctx job w. (None, w)) [''entity_update'']
       sample_cfg sample_bench (sample_harness None False, 0, []) = (None, b1, h1, cw1)
     \<and> fst (Enqueue_platlib list_deps h1 Background (req_TenantID sample_request) (req_Kind sample_request) (req_Payload sample_request) (0, []))
         = Inr ''bench:1''"
proof -
  let ?ops = "platlib_ops list_deps (\<lambda>t p. None) (\<lambda>t. None) []" and ?fn = "\<lambda>(k :: Kind) (ctx :: Context) (job :: Job) w. (None :: goerr option, w)"
  have new: "fst (New_platlib \<lparr>connect_err = None, broadcaster_err = None, queue_err = None\<rparr> sample_config
      \<lparr>DefaultPriority = 0, UseAddressedPush = False, BackoffFn = None\<rparr> empty_world) = Inr (sample_harness None False)"
    by (simp add: New_platlib_def Validate_def sample_config_def sample_harness_def applySchema_def empty_world_def Let_def Second_def)
  have o: "rec_open (recorder sample_bench)" by (simp add: sample_bench_def)
  obtain h1 b1 cw1 where s: "Run_setup sample_env ?ops ?fn [''entity_update''] sample_cfg sample_bench (sample_harness None False, 0, []) = (None, b1, h1, cw1)"
    by (simp add: Run_setup_def rec_Record_ok [OF sample_env_ok(1) o] platlib_ops_def Register_platlib_def Start_platlib_def sample_harness_def Let_def)
  have m: "set [''entity_update''] = jc_Kind ` set (JobMix (rc_Spec sample_cfg))" by (simp add: sample_cfg_def job_class_def)
  have g: "spec (fst (NewGenerator (\<lambda>a b. 0 :: nat) (rc_Spec sample_cfg) (pool_of 1))) = rc_Spec sample_cfg" by (simp add: NewGenerator_def)
  have a: "Address_benchWork x = ''bench:1''" if "WorkID x = 0 + 1" for x
  proof -
    have "digit (Suc 0) = CHR 0x31" by code_simp
    then show ?thesis using that by (simp add: Address_benchWork_def dec_of_nat.simps)
  qed
  show ?thesis
    using every_request_is_pushed [OF new _ _ m s sample_request_ok g, of 0 Background "[]"] s a
    by (auto simp: list_deps_def)
qed


lemma launch_ok:
  assumes "launch env f s ops h = (CmdReturns None, out, Some r)"
    and "never_fails (benv env)" "reads_back parse_time (benv env)" "\<forall>p. existing env p = []"
  shows "\<exists>sm. analyzeReader parse_time None (map Inr (rec_lines r)) fname = (sm, None)
    \<and> rs_RunID sm = run_id env f \<and> Library sm = f_lib f \<and> Scenario sm = sp_Name s"
proof -
  let ?c = "\<lparr>rc_Library = f_lib f, rc_Spec = s, EnqueueConcurrency = 0, DrainTimeout = 0, ResourceSampleInterval = 0\<rparr>"
  obtain r0 st where r0: "NewRecorder (mkdir_err env) (open_err env) (existing env) (f_resultsDir f) (run_id env f) = Inr r0"
    and run: "Run_bench (benv env) (genv env) ops (\<lambda>k. workerFn (benv env)) (visit env s) (acts env) (late env) ?c (new_bench r0) h = (RunReturns None, st)"
    and r: "r = snd (Close (close_err env) (recorder (bst st)))"
    using assms(1) by (auto simp: launch_def Let_def split: sum.splits prod.splits run_result.splits option.splits)
  have "runID r0 = run_id env f" "fresh_bench (new_bench r0)"
    using r0 assms(4) by (auto simp: NewRecorder_def Let_def fresh_bench_def new_bench_def split: option.splits)
  moreover have "rec_lines r = rec_lines (recorder (bst st))" by (simp add: r Close_def)
  ultimately show ?thesis
    using run_file_analyzed [OF assms(2) _ run assms(3), of fname] by (auto simp: new_bench_def)
qed

lemma cmdRun_ok:
  assumes "cmdRun env args = (CmdReturns None, out, Some r)"
    and "never_fails (benv env)" "reads_back parse_time (benv env)" "\<forall>p. existing env p = []"
  shows "\<exists>vs sm. Parse (readers env) run_flag_kinds args [] = Parsed vs \<and> analyzeReader parse_time None (map Inr (rec_lines r)) fname = (sm, None)
    \<and> rs_RunID sm = run_id env (run_flags_of vs) \<and> Library sm = f_lib (run_flags_of vs) \<and> Library sm \<in> {''river'', ''platlib''}
    \<and> Scenario sm = f_scenario (run_flags_of vs)"
proof (cases "Parse (readers env) run_flag_kinds args []")
  case (Parsed vs)
  let ?f = "run_flags_of vs"
  obtain s c where p: "run_plan ?f = Inr (s, c)"
    using assms(1) by (cases "run_plan ?f") (auto simp: cmdRun_def Parsed Let_def)
  obtain s0 where s0: "SpecFor (f_scenario ?f) = Inr s0" "s = override_spec ?f s0"
    using p by (auto simp: run_plan_def split: if_splits sum.splits)
  have name: "sp_Name s = f_scenario ?f"
    using SpecFor_Inr [OF s0(1)] by (simp add: s0(2) override_spec_def Let_def)
  note step = launch_ok [OF _ assms(2-4), where s = s and f = ?f and fname = fname, unfolded name]
  consider
    (river) h where "f_lib ?f = ''river''"
      "launch env ?f s (river_ops (rv_deps env) (rv_client env) (rv_start env) (rv_stop env)) (h, world0 env) = (CmdReturns None, out, Some r)"
  | (platlib) h where "f_lib ?f = ''platlib''"
      "launch env ?f s (platlib_ops (pl_deps env) (pl_conc env) (pl_stop env) (pl_fired env)) (h, 0, world0 env) = (CmdReturns None, out, Some r)"
    using assms(1) by (auto simp: cmdRun_def Parsed p Let_def split: if_splits sum.splits)
  then show ?thesis
  proof cases
    case river
    then show ?thesis using step [OF river(2)] Parsed by auto
  next
    case platlib
    then show ?thesis using step [OF platlib(2)] Parsed by auto
  qed
qed (use assms(1) in \<open>auto simp: cmdRun_def\<close>)


lemma sample_parse: "Parse decimal_readers run_flag_kinds sample_args [] = Parsed sample_vals"
  by code_simp

lemma sample_stream:
  "Run_generator sample_rng (fst (NewGenerator (\<lambda>a b. 0 :: nat) (rc_Spec sample_cfg) (pool_of 1))) False [Tick 50000000, Done] [] 0
     = Streamed [sample_request] 0"
  by code_simp

lemma sample_plan: "run_plan (run_flags_of sample_vals) = Inr (rc_Spec sample_cfg, run_config (run_flags_of sample_vals))"
  by (simp add: run_plan_def run_flags_of_def str_flag_def int_flag_def sample_vals_def override_spec_def SpecFor_def sample_cfg_def Let_def)

lemma sample_cli_runs: "\<exists>out r. cmdRun sample_cli sample_args = (CmdReturns None, out, Some r)"
proof -
  let ?f = "run_flags_of sample_vals" and ?b = "new_bench \<lparr>runID = run_id sample_cli (run_flags_of sample_vals), rec_path = Join2 ''./results'' (run_id sample_cli (run_flags_of sample_vals) @ ''.jsonl''), rec_lines = [], rec_open = True\<rparr>"
  let ?ops = "river_ops bench_river_deps (\<lambda>c. None) (\<lambda>c. None) (\<lambda>t. None)"
  let ?c = "\<lparr>rc_Library = ''river'', rc_Spec = rc_Spec sample_cfg, EnqueueConcurrency = 0, DrainTimeout = 0, ResourceSampleInterval = 0\<rparr>"
  have f: "f_lib ?f = ''river''" "f_resultsDir ?f = ''./results''" "f_pgURL ?f = ''pg''" "f_workers ?f = 10"
    by (simp_all add: run_flags_of_def str_flag_def int_flag_def sample_vals_def)
  obtain h :: "bench RiverHarness" where new: "fst (New_river (rv_new sample_cli) (run_config ?f) river_options) = Inr h" "rv_workers h = []" "\<not> rv_started h"
    using run_config_valid [of ?f] f by (auto simp: New_river_def sample_cli_def Let_def river_options_def)
  have o: "rec_open (recorder ?b)" by (simp add: new_bench_def)
  obtain b1 h1 where su: "Run_setup sample_env ?ops (\<lambda>k. workerFn sample_env) [''entity_update''] (with_defaults ?c) ?b (h, sample_bench) = (None, b1, h1, sample_bench)"
      "client h1 \<noteq> None" "rec_open (recorder b1)"
    using new by (simp add: Run_setup_def rec_Record_ok [OF sample_env_ok(1) o] river_ops_def Register_river_def Start_river_def Let_def o)
  have c: "rc_Spec (with_defaults ?c) = rc_Spec sample_cfg" "EnqueueConcurrency (with_defaults ?c) = 4"
    by (simp_all add: with_defaults_def Let_def)
  have sp: "EnqueueRate (rc_Spec sample_cfg) = 20" "Tenants (rc_Spec sample_cfg) = 1" by (simp_all add: sample_cfg_def base_spec_def)
  obtain g r where gr: "NewGenerator (ge_PCG sample_gen) (rc_Spec sample_cfg) (ge_pool sample_gen) = (g, r)" by fastforce
  have stream: "Run_generator (ge_rng sample_gen) g False (ge_wakes sample_gen) (ge_sends sample_gen) r = Streamed [sample_request] 0"
    using sample_stream gr by (simp add: sample_gen_def NewGenerator_def)
  let ?s = "exec_actions sample_env ?ops [Take Background 0, Return 0, Log 0] (start_state (with_defaults ?c) [sample_request] b1 (h1, sample_bench))"
  have s: "reqs ?s = []" "list_all (\<lambda>e. e = Idle) (enqs ?s)" "rec_open (recorder (bst ?s))"
    using su(2,3) by (simp_all add: exec_actions_def exec_action_def start_state_def c(2) enqueuer_take_def enqueuer_return_def time_Now_def river_ops_def
        Enqueue_river_def bench_river_deps_def Let_def numeral_eq_Suc rec_Record_ok [OF sample_env_ok(1)])
  have fin: "\<exists>s'. Run_finish sample_env ?ops [] ?s = (RunReturns None, s')"
    using s(3) by (auto simp: Run_finish_def river_ops_def Stop_river_def Let_def exec_actions_def rec_Record_ok [OF sample_env_ok(1)]
        split: prod.split option.split)
  then obtain s' where s': "Run_finish sample_env ?ops [] ?s = (RunReturns None, s')" by blast
  have "int64_of 40 = 40" by (simp add: in_int64_def)
  then have run: "Run_bench sample_env sample_gen ?ops (\<lambda>k. workerFn sample_env) [''entity_update''] [Take Background 0, Return 0, Log 0] [] ?c ?b (h, sample_bench)
      = (RunReturns None, s')"
    using s(1,2) s' by (simp add: Run_bench_def Let_def su(1) c(1) sp gr stream)
  then show ?thesis
    using f new(1) by (auto simp: cmdRun_def sample_cli_def sample_parse sample_plan launch_def NewRecorder_def Let_def)
qed


lemma launch_not_exit: "fst (launch env f s ops h) \<noteq> CmdExit n"
  by (auto simp: launch_def Let_def split: sum.split prod.split run_result.split option.split)

lemma cmdRun_exit:
  "fst (cmdRun env as) = CmdExit n \<longleftrightarrow>
     (case Parse (readers env) run_flag_kinds as [] of ParseError \<Rightarrow> n = 2 | ParseHelp \<Rightarrow> n = 0 | Parsed vs \<Rightarrow> False)"
  by (auto simp: cmdRun_def Let_def launch_not_exit split: parsed.split sum.split)

text \<open>the exit status: 0 for a help request and for a command that returned without an error, 1 when it returned an
  error, 2 for a missing or unknown subcommand and for flags that do not parse; a process that panics or blocks has none
  of these.\<close>

theorem main_exit_status:
  "fst (main (\<lambda>as. fst (cmdRun env as)) (\<lambda>as. fst (cmdReport rd pt read_dir write_err as)) args) =
     (let as = drop 2 args in
      if length args < 2 then Some 2
      else if args ! 1 = ''run'' then
        (case Parse (readers env) run_flag_kinds as [] of
           ParseError \<Rightarrow> Some 2
         | ParseHelp \<Rightarrow> Some 0
         | Parsed vs \<Rightarrow> (case fst (cmdRun env as) of CmdReturns e \<Rightarrow> Some (if e = None then 0 else 1) | _ \<Rightarrow> None))
      else if args ! 1 = ''report'' then
        (case Parse rd report_flag_kinds as [] of
           ParseError \<Rightarrow> Some 2
         | ParseHelp \<Rightarrow> Some 0
         | Parsed vs \<Rightarrow> Some (if (\<exists>s. AnalyzeDir pt (read_dir (str_flag vs ''results-dir'' ''./results'')) = Inr s)
                \<and> (str_flag vs ''out'' '''' = '''' \<or> write_err (str_flag vs ''out'' '''') = None) then 0 else 1))
      else Some (if args ! 1 \<in> {''-h'', ''--help'', ''help''} then 0 else 2))"
proof (cases "length args < 2")
  case True
  then show ?thesis by (auto simp: main_def length_Suc_conv numeral_2_eq_2 less_Suc_eq Let_def)
next
  case False
  then obtain p cmd as where a: "args = p # cmd # as" by (metis One_nat_def Suc_1 le_neq_implies_less length_0_conv length_Cons linorder_le_less_linear linorder_not_less neq_Nil_conv not_less_eq_eq zero_le)
  have run: "fst (exit_of (fst (cmdRun env as))) = (case Parse (readers env) run_flag_kinds as [] of
           ParseError \<Rightarrow> Some 2
         | ParseHelp \<Rightarrow> Some 0
         | Parsed vs \<Rightarrow> (case fst (cmdRun env as) of CmdReturns e \<Rightarrow> Some (if e = None then 0 else 1) | _ \<Rightarrow> None))"
    using cmdRun_exit [of env as]
    by (cases "Parse (readers env) run_flag_kinds as []"; cases "fst (cmdRun env as)")
       (auto simp: exit_of_def split: option.split)
  have report: "fst (exit_of (fst (cmdReport rd pt read_dir write_err as))) = (case Parse rd report_flag_kinds as [] of
           ParseError \<Rightarrow> Some 2
         | ParseHelp \<Rightarrow> Some 0
         | Parsed vs \<Rightarrow> Some (if (\<exists>s. AnalyzeDir pt (read_dir (str_flag vs ''results-dir'' ''./results'')) = Inr s)
                \<and> (str_flag vs ''out'' '''' = '''' \<or> write_err (str_flag vs ''out'' '''') = None) then 0 else 1))"
    by (auto simp: cmdReport_def exit_of_def Let_def split: parsed.split sum.split option.split)
  show ?thesis
    using run report by (simp add: a main_def Let_def)
qed

end
