(* ===== verification/Spec2Isabelle.thy ===== *)
theory Spec2Isabelle
  imports Platlib_Drain Bench_CLI
begin

text \<open>
  A verification library for \<^verbatim>\<open>queue-benchmark\<close>, a Go program that runs one synthetic workload against two job-queue
  libraries (River and platform-lib, both over Postgres) behind one contract and compares them. Paths are relative to the
  repository, under \<^verbatim>\<open>src/\<close> here.

  \<^bold>\<open>The program.\<close> \<^verbatim>\<open>cmd/bench/main.go\<close> reads the flags, looks the scenario up, opens a results file and an adapter, and
  calls the runner. The runner (\<^verbatim>\<open>internal/runner\<close>) registers one worker per kind, starts the harness, lets the generator
  (\<^verbatim>\<open>internal/workload\<close>) send requests down a channel, has goroutines hand them to the harness, and waits for
  the drain time to pass; the worker and the goroutines count and append events to the file through the recorder
  (\<^verbatim>\<open>internal/metrics\<close>). The adapters (\<^verbatim>\<open>internal/queue/platlib\<close>, \<^verbatim>\<open>internal/queue/river\<close>) implement the contract of
  \<^verbatim>\<open>internal/queue\<close>; the platform-lib one brings its own store. \<^verbatim>\<open>internal/analyze\<close> reads the files of many
  runs back and prints a report in Markdown.

  \<^bold>\<open>Theories, and what they model.\<close>

  \<^item> \<open>Go_Base\<close>: the prelude. Go's integer conversions, error values with their chains (\<^verbatim>\<open>errors.Is\<close>, \<^verbatim>\<open>%w\<close>), JSON documents,
    generic facts, and the interface \<open>invariant_system\<close> of a component whose operations keep an invariant.
  \<^item> \<open>Queue_Contract\<close>: \<^verbatim>\<open>queue/queue.go\<close> and \<^verbatim>\<open>queue/harness.go\<close>: the data of the contract, \<open>Validate\<close>,
    \<open>DefaultRouter\<close>, \<open>Simulate\<close>, \<open>IsSimulatedError\<close>. \<open>Job_Codec\<close>: the JSON form of a payload. \<open>Harness_Interface\<close>: the
    interface \<open>harness\<close>, what the runner relies on while it sets an adapter up.
  \<^item> \<open>Claim_Queue\<close>, \<open>Pg_Store\<close>, \<open>Pg_Store_Facts\<close>: \<^verbatim>\<open>platlib/store.go\<close> with \<^verbatim>\<open>schema.sql\<close> and \<^verbatim>\<open>constants.go\<close>. One
    definition per operation over explicit tables, sequences, open transactions and scripted statement failures; the
    invariant \<open>store_inv\<close>; functional behaviour, errors and atomicity of each operation; the interface \<open>claim_queue\<close> of a
    queue that hands out a first element, and its consumer.
  \<^item> \<open>Store_Concurrency\<close>: several workers in \<open>QueuePop\<close> at once, one SQL statement per step; reachable states, the invariant by
    rule induction, and the sequential \<open>QueuePop\<close> as a run of these steps.
  \<^item> \<open>Platlib_Adapter\<close>: \<^verbatim>\<open>platlib/adapter.go\<close>: life cycle, work ids, type codes, back-off, and the runner with its retry policy.
    \<open>Platlib_Retry\<close> and \<open>Platlib_Drain\<close>: the adapter on top of its store, for one job and for many. \<open>River_Adapter\<close>:
    \<^verbatim>\<open>river/adapter.go\<close>.
  \<^item> \<open>Go_Float\<close>, \<open>Analyze_Stats\<close>, \<open>Analyze_Events\<close>, \<open>Analyze_Report\<close>: \<^verbatim>\<open>analyze/analyze.go\<close> over binary64 arithmetic:
    percentiles, the one pass over an event stream against reference definitions that look at the whole stream, directories,
    groups, tables.
  \<^item> \<open>Workload\<close>: \<^verbatim>\<open>workload/workload.go\<close> and \<^verbatim>\<open>workload/scenarios.go\<close>. \<open>Metrics_Recorder\<close>: \<^verbatim>\<open>metrics/recorder.go\<close>.
  \<^item> \<open>Bench_Runner\<close>: \<^verbatim>\<open>runner/runner.go\<close>. The goroutines are an interleaving of atomic actions (\<open>exec_action\<close>); \<open>Run_bench\<close> is the
    sequence of a whole run. \<open>Bench_CLI\<close>: \<^verbatim>\<open>cmd/bench/main.go\<close>, where the adapters meet the runner and a run meets the report.
  \<^item> This theory: facts that need more than one of these sides.

  \<^bold>\<open>Interfaces and who provides them.\<close> \<open>claim_queue\<close> is provided by the store (\<open>store_queue\<close>), so its consumer's lemmas give
  \<open>store_drains_in_order\<close>. \<open>invariant_system\<close> is provided by the store (\<open>store_runs\<close>), the platform-lib harness
  (\<open>platlib_runs\<close>) and the goroutines of the runner (\<open>run_tally\<close>: counters and file tell the same story). \<open>harness\<close> is provided by both
  adapters alone (\<open>platlib_harness\<close>, \<open>river_harness\<close>) and as the runner sees them (\<open>platlib_run\<close>, \<open>river_run\<close>). The order of claims is
  an instance of the library's \<open>linorder\<close> (\<open>claim_key\<close>), so that what the store hands out is a \<open>sort_key\<close>.

  \<^bold>\<open>What the properties show.\<close> Store: no row is held twice, none is lost, no permit leaks, transactions are atomic, errors
  leave nothing behind, and rows leave in the order of priority and insertion. Adapter: every job is delivered for exactly
  its attempts and the queue ends empty, whatever the workers answer and whether retries wait or not; ids and work round-trip; the life cycle keeps its
  invariant and releases what it opened. Both adapters judge errors alike. Workload: scenarios are well formed, the offered number of jobs is the rate times
  the duration, tenants follow the skew. Runner: every schedule can be completed, and what the analyzer counts in the file is what the
  runner counted. Analyzer: percentiles have their defining property, groups partition the runs independently of the order of a map, samples agree with the reference. Command line: which
  flags are accepted, exit statuses, and a report that shows exactly the run before it.

  \<^bold>\<open>Conventions, bounds, fuel.\<close> Durations and times are nanoseconds. Values of Go's 64-bit integers are \<open>int\<close> with the wrap-around written
  as \<open>int64_of\<close>, or words (\<open>uint64\<close>) where bits matter; statements about counts carry \<open>2 ^ 53\<close> (where \<^verbatim>\<open>float64\<close> is exact) or \<open>in_int64\<close>;
  the permit sequence must stay below \<open>2 ^ 63\<close>, where Postgres refuses to go on; a rate above \<open>10 ^ 9\<close> makes the ticker panic, which is proved.
  No definition uses fuel except \<open>drain\<close> and \<open>serve_times\<close>, which count pops and deliveries; the theorems say how many are enough (the number of waiting rows,
  at most \<open>MaxAttempts\<close> per job). Everything else recurs on its data.

  \<^bold>\<open>Parameters and hypotheses.\<close> Code outside the repository is an argument: \<open>rng_ok\<close> gives the documented ranges of \<^verbatim>\<open>math/rand/v2\<close>;
  \<open>pushes_to_store\<close> says that \<^verbatim>\<open>DatabaseQueue.Push\<close> hands a work's type code and JSON to \<open>QueuePush\<close>; \<open>never_fails\<close> that the file takes every line; \<open>reads_back\<close> that
  \<^verbatim>\<open>time.Time\<close> survives its RFC 3339 form. \<^verbatim>\<open>uuid\<close>, River's client and migrator, the agent and the broadcaster, \<^verbatim>\<open>strconv\<close> and
  \<^verbatim>\<open>time.ParseDuration\<close> are fields of \<open>deps\<close>, \<open>new_env\<close>, \<open>river_env\<close>, \<open>river_deps\<close>, \<open>cli_env\<close> and \<open>flag_readers\<close>. The witnesses give concrete ones.

  \<^bold>\<open>Not modelled.\<close> \<^verbatim>\<open>internal/queue/testhelp/pg.go\<close> (environment and connection helpers of the integration tests) and the tests; the inside of
  River and platform-lib, so deliveries follow what the adapter's comments say of the agent; how long anything takes (time only orders
  actions and is written down); the help text that package \<^verbatim>\<open>flag\<close> prints; not-a-number and infinities; Go's case-insensitive second choice for a JSON
  member; blocking between transactions that insert one address at the same time. Left to do: the completion notices of addressed
  pushes and a delivery that interleaves waiting back-off timers of different jobs.
\<close>

section \<open>A harness whose worker is the one of the runner\<close>

definition recorded_harness :: "bench bench_world Harness" where
  "recorded_harness = \<lparr>cfg = sample_config\<lparr>MaxAttempts := 3\<rparr>, opts = \<lparr>DefaultPriority = 10, UseAddressedPush = False, BackoffFn = None\<rparr>,
     workers = [(''k'', lift_worker (workerFn sample_env))], started = True,
     agent = Some [(10, 4)], factory = Some [(kindCode ''k'', ''k'')],
     stopCh = False, pool_open = True, lf_open = True, retries = []\<rparr>"

definition transient_payload :: JobPayload where
  "transient_payload = \<lparr>WorkMillis = 0, Bytes = None, FailWithError = ErrorTransient, pl_Attempt = 0\<rparr>"

section \<open>Type codes\<close>

lemma default_codes_distinct: "distinct (map (\<lambda>k. int64_of_uint64 (kindCode k)) (map jc_Kind defaultMix))"
proof -
  have "distinct (map kindCode (map jc_Kind defaultMix))" by code_simp
  then show ?thesis by (auto simp: distinct_map inj_on_def)
qed

text \<open>no two kinds of a workload share a type code: the 64-bit hash that stands for the kind in the (signed) type column
  of the queue table is injective on the kinds of every built-in scenario.\<close>

theorem kind_codes_distinct:
  assumes "SpecFor name = Inr s"
  shows "inj_on (\<lambda>k. int64_of_uint64 (kindCode k)) (jc_Kind ` set (JobMix s))"
proof -
  have "JobMix s = defaultMix \<or> length (JobMix s) = 1"
    using assms by (auto simp: SpecFor_def base_spec_def split: if_splits)
  then show ?thesis
    using default_codes_distinct by (fastforce simp: distinct_map length_Suc_conv inj_on_def)
qed

theorem kind_codes_distinct_witness: "kindCode ''entity_update'' \<noteq> kindCode ''document_process''"
proof -
  let ?s = "base_spec ''steady'' 10 5 50 1"
  have "SpecFor ''steady'' = Inr ?s" by (simp add: SpecFor_def)
  from kind_codes_distinct [OF this] show ?thesis
    by (auto simp: base_spec_def defaultMix_def job_class_def)
qed

section \<open>From the worker to the results file and the store\<close>

lemma injected_events:
  assumes "never_fails env" "rec_open (recorder b)" "ctx_err ctx \<in> {Canceled, DeadlineExceeded}" "in_int64 (failedCount b)"
    and "FailWithError p \<noteq> ''''"
  shows "\<exists>evs. recorder (fold (\<lambda>j s. snd (workerFn env ctx (attempt_job ctr tenant kind p now j) s)) js b)
        = (recorder b)\<lparr>rec_lines := rec_lines (recorder b) @ map (marshal_Event (fmt_time env)) evs\<rparr>
    \<and> map (\<lambda>e. (Kind e, jget (Fields e) ''attempt'')) evs =
        concat (map (\<lambda>j. [(KindJobStarted, Some (JInt j)), (KindJobFailed, Some (JInt j))]) js)
    \<and> (\<forall>e \<in> set evs. jget (Fields e) ''job_id'' = Some (JStr (job_id_at ctr 1)))
    \<and> failedCount (fold (\<lambda>j s. snd (workerFn env ctx (attempt_job ctr tenant kind p now j) s)) js b) = int64_of (failedCount b + int (length js))
    \<and> completedCount (fold (\<lambda>j s. snd (workerFn env ctx (attempt_job ctr tenant kind p now j) s)) js b) = completedCount b"
  using assms(2,4)
proof (induction js arbitrary: b)
  case Nil
  then show ?case by (intro exI [of _ "[]"]) simp
next
  case (Cons j js)
  let ?job = "attempt_job ctr tenant kind p now j"
  obtain err b1 where w: "workerFn env ctx ?job b = (err, b1)" by fastforce
  have "FailWithError (job_Payload ?job) \<noteq> ''''" using assms(5) by (simp add: attempt_job_def)
  from workerFn_injected [OF this, of env ctx b] have err: "err \<noteq> None" using w by auto
  obtain e1 e2 where e: "recorder b1 = (recorder b)\<lparr>rec_lines := rec_lines (recorder b) @ map (marshal_Event (fmt_time env)) [e1, e2]\<rparr>"
    "Kind e1 = KindJobStarted" "Kind e2 = KindJobFailed"
    "jget (Fields e1) ''job_id'' = Some (JStr (job_id_at ctr 1))" "jget (Fields e2) ''job_id'' = Some (JStr (job_id_at ctr 1))"
    "jget (Fields e1) ''attempt'' = Some (JInt j)" "jget (Fields e2) ''attempt'' = Some (JInt j)"
    "completedCount b1 = completedCount b" "failedCount b1 = int64_of (failedCount b + 1)"
    using workerFn_events [OF assms(1) Cons.prems(1) assms(3) w] err by (auto simp: attempt_job_def outcome_kind_def)
  have b1: "rec_open (recorder b1)" "in_int64 (failedCount b1)" using Cons.prems e(1,9) int64_of_range by auto
  have sum: "int64_of (int64_of (failedCount b + 1) + int n) = int64_of (failedCount b + int (Suc n))" for n
    using int64_of_add [of "failedCount b + 1" "int n"] by (simp add: algebra_simps)
  from Cons.IH [OF b1] obtain evs where "recorder (fold (\<lambda>j s. snd (workerFn env ctx (attempt_job ctr tenant kind p now j) s)) js b1)
        = (recorder b1)\<lparr>rec_lines := rec_lines (recorder b1) @ map (marshal_Event (fmt_time env)) evs\<rparr>"
    "map (\<lambda>e. (Kind e, jget (Fields e) ''attempt'')) evs =
        concat (map (\<lambda>j. [(KindJobStarted, Some (JInt j)), (KindJobFailed, Some (JInt j))]) js)"
    "\<forall>e \<in> set evs. jget (Fields e) ''job_id'' = Some (JStr (job_id_at ctr 1))"
    "failedCount (fold (\<lambda>j s. snd (workerFn env ctx (attempt_job ctr tenant kind p now j) s)) js b1) = int64_of (failedCount b1 + int (length js))"
    "completedCount (fold (\<lambda>j s. snd (workerFn env ctx (attempt_job ctr tenant kind p now j) s)) js b1) = completedCount b1"
    by blast
  then show ?case using e w by (intro exI [of _ "e1 # e2 # evs"]) (simp add: sum)
qed

text \<open>C4: End to end, from the runner's worker through the platform-lib adapter to its store: a job whose payload
  injects an error class into an otherwise empty queue is delivered once if the class is \<^verbatim>\<open>permanent\<close> and \<open>MaxAttempts\<close> times
  otherwise; the results file gets exactly a \<^verbatim>\<open>job_started\<close> and a \<^verbatim>\<open>job_failed\<close> line for each delivery, with attempts
  counting from 1 and the id \<open>Enqueue\<close> returned, the failure counter grows by the number of deliveries, and the queue is empty.\<close>

theorem injected_failures_are_recorded:
  fixes d :: "bench bench_world deps"
  assumes "pushes_to_store d" and "uuid_Parse d (uuid_String d tenant) = Inr tenant"
    and "started h" and "map_of (workers h) kind = Some (lift_worker (workerFn env))"
    and "retries h = []" and "\<not> UseAddressedPush (opts h)"
    and "1 \<le> MaxAttempts (cfg h)" and "MaxAttempts (cfg h) < 2 ^ 31" and "wf_payload p" and "kindCode kind \<in> set types"
    and "FailWithError p \<noteq> ''''" and "n = (if FailWithError p = ErrorPermanent then 1 else nat (MaxAttempts (cfg h)))"
    and "holds_works (DefaultPriority (opts h)) [] n (pg w)"
    and "never_fails env" "rec_open (recorder (ran w))" "in_int64 (failedCount (ran w))" "ctx_err ctx \<in> {Canceled, DeadlineExceeded}"
    and "Enqueue_platlib d h ctx tenant kind p (ctr, w) = (res, ctr', w1)"
  shows "\<exists>i w2 evs. res = Inr i \<and> serve_times n d ctx now (DefaultPriority (opts h)) types (h, w1) = (h, w2) \<and> queue (pool (pg w2)) = []
    \<and> rec_lines (recorder (ran w2)) = rec_lines (recorder (ran w)) @ map (marshal_Event (fmt_time env)) evs
    \<and> map (\<lambda>e. (Kind e, jget (Fields e) ''attempt'')) evs =
        concat (map (\<lambda>j. [(KindJobStarted, Some (JInt j)), (KindJobFailed, Some (JInt j))]) [1..int n])
    \<and> (\<forall>e \<in> set evs. jget (Fields e) ''job_id'' = Some (JStr i))
    \<and> failedCount (ran w2) = int64_of (failedCount (ran w) + int n) \<and> completedCount (ran w2) = completedCount (ran w)"
proof -
  let ?job = "attempt_job ctr tenant kind p now"
  have "0 < n" using assms(7,12) by (simp split: if_splits)
  then obtain m where m: "n = Suc m" by (auto simp: gr0_conv_Suc)
  define out where "out j = fst (Simulate ctx True (?job j))" for j
  have sim: "fst (Simulate ctx x (?job j)) = out j" for x j
    using assms(11) by (simp add: out_def Simulate_def attempt_job_def Let_def)
  have fst_out: "fst (workerFn env ctx (?job j) s) = out j" for j s
    using sim by (simp add: workerFn_def Let_def split: prod.split)
  have cls: "\<exists>e. out j = Some e \<and> IsSimulatedError e = Some (FailWithError p)" for j
    using Simulate_injected [of "?job j" ctx True] assms(11) by (auto simp: out_def attempt_job_def)
  have ret: "retryable (out j) \<longleftrightarrow> FailWithError p \<noteq> ErrorPermanent" for j
    using cls [of j] by (auto simp: retryable_def)
  have last: "int (Suc m) = MaxAttempts (cfg h) \<or> int (Suc m) < MaxAttempts (cfg h) \<and> \<not> retryable (out (int (Suc m)))"
    using assms(7,12) m ret by (cases "FailWithError p = ErrorPermanent") auto
  have again: "\<forall>j. 1 \<le> j \<and> j < int (Suc m) \<longrightarrow> retryable (out j)"
    using assms(12) m ret by (auto split: if_splits)
  from enqueue_then_serve [OF assms(1-6,8-10) assms(13) [unfolded m] again last assms(18) fst_out]
  obtain u where u: "res = Inr (job_id_at ctr 1)" "queue (pool u) = []" "serve_times n d ctx now (DefaultPriority (opts h)) types (h, w1) =
       (h, \<lparr>pg = u, ran = fold (\<lambda>j s. snd (workerFn env ctx (?job j) s)) [1..int n] (ran w)\<rparr>)"
    unfolding m by blast
  have len: "int (length [1..int n]) = int n" by simp
  from injected_events [OF assms(14,15,17,16,11), of ctr tenant kind now "[1..int n]", unfolded len] u show ?thesis
    by (auto simp del: upto.simps)
qed

theorem injected_failures_are_recorded_witness:
  "\<exists>w2. snd (serve_times 3 store_deps Background 0 10 [kindCode ''k''] (recorded_harness,
        snd (snd (Enqueue_platlib store_deps recorded_harness Background 9 ''k'' transient_payload (0, \<lparr>pg = empty_world, ran = sample_bench\<rparr>))))) = w2
     \<and> failedCount (ran w2) = 3 \<and> length (rec_lines (recorder (ran w2))) = 6 \<and> queue (pool (pg w2)) = []"
proof -
  obtain res ctr' w1 where e: "Enqueue_platlib store_deps recorded_harness Background 9 ''k'' transient_payload (0, \<lparr>pg = empty_world, ran = sample_bench\<rparr>) = (res, ctr', w1)"
    by (metis prod_cases3)
  have h: "started recorded_harness" "\<not> UseAddressedPush (opts recorded_harness)" "retries recorded_harness = []"
    "MaxAttempts (cfg recorded_harness) = 3" "DefaultPriority (opts recorded_harness) = 10"
    "map_of (workers recorded_harness) ''k'' = Some (lift_worker (workerFn sample_env))"
    by (simp_all add: recorded_harness_def)
  have p: "uuid_Parse store_deps (uuid_String store_deps 9) = Inr 9" "wf_payload transient_payload" "FailWithError transient_payload \<noteq> ''''"
    "3 = (if FailWithError transient_payload = ErrorPermanent then 1 else nat (MaxAttempts (cfg recorded_harness)))"
    "1 \<le> MaxAttempts (cfg recorded_harness)" "MaxAttempts (cfg recorded_harness) < 2 ^ 31" "kindCode ''k'' \<in> set [kindCode ''k'']"
    by (simp_all add: h(4) store_deps_def wf_payload_def transient_payload_def in_int32_def in_int64_def ErrorTransient_def ErrorPermanent_def)
  have w: "holds_works (DefaultPriority (opts recorded_harness)) [] 3 (pg \<lparr>pg = empty_world, ran = sample_bench\<rparr>)"
    using store_inv_empty [of "[]"] by (simp add: h(5) holds_works_def empty_world_def empty_tables_def)
  have b: "rec_open (recorder (ran \<lparr>pg = empty_world, ran = sample_bench\<rparr>))" "in_int64 (failedCount (ran \<lparr>pg = empty_world, ran = sample_bench\<rparr>))"
    "ctx_err Background \<in> {Canceled, DeadlineExceeded}"
    by (simp_all add: sample_bench_def in_int64_def Background_def)
  obtain i w2 evs where r: "serve_times 3 store_deps Background 0 10 [kindCode ''k''] (recorded_harness, w1) = (recorded_harness, w2)" "queue (pool (pg w2)) = []"
    "rec_lines (recorder (ran w2)) = rec_lines (recorder sample_bench) @ map (marshal_Event (fmt_time sample_env)) evs"
    "map (\<lambda>e. (Kind e, jget (Fields e) ''attempt'')) evs = concat (map (\<lambda>j. [(KindJobStarted, Some (JInt j)), (KindJobFailed, Some (JInt j))]) [1..int 3])"
    "failedCount (ran w2) = int64_of (failedCount sample_bench + int 3)"
    using injected_failures_are_recorded [OF store_deps_push p(1) h(1,6,3,2) p(5,6,2,7,3,4) w sample_env_ok(1) b e, of 0]
    unfolding h(5) by auto
  have "length evs = 6" using arg_cong [OF r(4), of length] by (simp add: upto_rec1)
  then show ?thesis
    using r e by (intro exI [of _ w2]) (simp add: sample_bench_def int64_of_def)
qed

end
